theory Spec2Isabelle
  imports
    Main
    "HOL-Library.Char_ord"
    "HOL-Library.List_Lexorder"
    "HOL-Library.Sublist"
    "HOL-Library.Multiset"
begin

section \<open>Python strings\<close>

text \<open>
  A Python \<open>str\<close> is modelled as a \<open>string\<close> whose characters are the code points
  below 256.  The classification of characters follows \<open>str.isspace\<close> and the line
  boundaries of \<open>str.splitlines\<close> on that range.
\<close>

definition isspace :: "char \<Rightarrow> bool" where
  "isspace c \<longleftrightarrow>
     c \<in> set [CHR 0x09, CHR 0x0A, CHR 0x0B, CHR 0x0C, CHR 0x0D, CHR 0x1C, CHR 0x1D,
              CHR 0x1E, CHR 0x1F, CHR 0x20, CHR 0x85, CHR 0xA0]"

definition islinebreak :: "char \<Rightarrow> bool" where
  "islinebreak c \<longleftrightarrow>
     c \<in> set [CHR 0x0A, CHR 0x0B, CHR 0x0C, CHR 0x0D, CHR 0x1C, CHR 0x1D, CHR 0x1E, CHR 0x85]"

definition lstrip :: "string \<Rightarrow> string" where
  "lstrip s = dropWhile isspace s"

definition rstrip :: "string \<Rightarrow> string" where
  "rstrip s = rev (dropWhile isspace (rev s))"

definition strip :: "string \<Rightarrow> string" where
  "strip s = lstrip (rstrip s)"

definition startswith :: "string \<Rightarrow> string \<Rightarrow> bool" where
  "startswith s p = prefix p s"

definition endswith :: "string \<Rightarrow> string \<Rightarrow> bool" where
  "endswith s p = suffix p s"

text \<open>\<open>p in s\<close> for two strings: \<open>p\<close> occurs in \<open>s\<close> as a contiguous piece.\<close>

definition contains :: "string \<Rightarrow> string \<Rightarrow> bool" where
  "contains s p = sublist p s"

text \<open>\<open>sep.join(xs)\<close>.\<close>

fun join :: "string \<Rightarrow> string list \<Rightarrow> string" where
  "join sep [] = []"
| "join sep [x] = x"
| "join sep (x # y # ys) = x @ sep @ join sep (y # ys)"

text \<open>
  \<open>s.split(sep)\<close> scans from the left and cuts at every occurrence of \<open>sep\<close> that does
  not overlap the previous cut.  Python raises \<open>ValueError\<close> on an empty separator;
  every call of the program passes a literal that is not empty, and the scan below does
  not cut on an empty separator.
\<close>

function split_aux :: "string \<Rightarrow> string \<Rightarrow> string \<Rightarrow> string list" where
  "split_aux sep acc [] = [rev acc]"
| "split_aux sep acc (c # cs) =
     (if sep \<noteq> [] \<and> prefix sep (c # cs)
      then rev acc # split_aux sep [] (drop (length sep) (c # cs))
      else split_aux sep (c # acc) cs)"
  by pat_completeness auto
termination
  by (relation "measure (\<lambda>(sep, acc, s). length s)") auto

definition split :: "string \<Rightarrow> string \<Rightarrow> string list" where
  "split s sep = split_aux sep [] s"

text \<open>\<open>s.split()\<close>: the maximal runs of characters that are not whitespace.\<close>

fun split_ws_aux :: "string \<Rightarrow> string \<Rightarrow> string list" where
  "split_ws_aux acc [] = (if acc = [] then [] else [rev acc])"
| "split_ws_aux acc (c # cs) =
     (if isspace c
      then (if acc = [] then split_ws_aux [] cs else rev acc # split_ws_aux [] cs)
      else split_ws_aux (c # acc) cs)"

definition split_ws :: "string \<Rightarrow> string list" where
  "split_ws s = split_ws_aux [] s"

text \<open>
  \<open>s.splitlines()\<close>: lines end at a line boundary, \<open>\r\n\<close> counts as one boundary, and
  a boundary at the very end opens no further line.
\<close>

fun splitlines_aux :: "string \<Rightarrow> string \<Rightarrow> string list" where
  "splitlines_aux acc [] = (if acc = [] then [] else [rev acc])"
| "splitlines_aux acc [c] = (if islinebreak c then [rev acc] else [rev (c # acc)])"
| "splitlines_aux acc (c # d # ds) =
     (if c = CHR 0x0D \<and> d = CHR 0x0A then rev acc # splitlines_aux [] ds
      else if islinebreak c then rev acc # splitlines_aux [] (d # ds)
      else splitlines_aux (c # acc) (d # ds))"

definition splitlines :: "string \<Rightarrow> string list" where
  "splitlines s = splitlines_aux [] s"

text \<open>\<open>s.lower()\<close> on the code points below 256.\<close>

definition lower_char :: "char \<Rightarrow> char" where
  "lower_char c =
     (let n = (of_char c :: nat) in
      if (65 \<le> n \<and> n \<le> 90) \<or> (192 \<le> n \<and> n \<le> 222 \<and> n \<noteq> 215)
      then char_of (n + 32) else c)"

definition lower :: "string \<Rightarrow> string" where
  "lower s = map lower_char s"

section \<open>Dictionaries in insertion order\<close>

text \<open>
  A Python \<open>dict\<close> keeps its keys in insertion order: assigning to a stored key
  replaces the value in place, assigning to a new key appends it.
\<close>

primrec dict_set :: "'k \<Rightarrow> 'v \<Rightarrow> ('k \<times> 'v) list \<Rightarrow> ('k \<times> 'v) list" where
  "dict_set k v [] = [(k, v)]"
| "dict_set k v (p # ps) = (if fst p = k then (k, v) # ps else p # dict_set k v ps)"


definition dict_keys :: "('k \<times> 'v) list \<Rightarrow> 'k list" where
  "dict_keys d = map fst d"


section \<open>Values, errors and the collaborators\<close>

text \<open>
  The values an attribute can hold.  \<open>'d\<close> is the type of the dates behind a
  \<open>SuperDate\<close> object; \<open>NoCompare\<close> is the object a lookup miss returns.
  Floats and the raw date objects of the YAML loader are not part of the model.
\<close>

datatype 'd pyval =
    PNone
  | PBool bool
  | PInt int
  | PStr string
  | PList "'d pyval list"
  | PDict "(string \<times> 'd pyval) list"
  | PSuperDate 'd
  | NoCompare

text \<open>
  Python's truth value of an object.  \<open>SuperDate\<close> and \<open>NoCompare\<close> objects take the
  default of a class that defines neither \<open>__bool__\<close> nor \<open>__len__\<close>.
\<close>

fun truthy :: "'d pyval \<Rightarrow> bool" where
  "truthy PNone = False"
| "truthy (PBool b) = b"
| "truthy (PInt i) = (i \<noteq> 0)"
| "truthy (PStr s) = (s \<noteq> [])"
| "truthy (PList xs) = (xs \<noteq> [])"
| "truthy (PDict kvs) = (kvs \<noteq> [])"
| "truthy (PSuperDate d) = True"
| "truthy NoCompare = True"

datatype error = KeyError | ValueError | AttributeError | YAMLError

type_synonym 'd attributes = "(string \<times> 'd pyval) list"

text \<open>
  The libraries the program calls, as parameters of the model:
  \<^item> \<open>path_contents p\<close> is the content of the file at \<open>p\<close> when \<open>os.path.exists(p)\<close>;
  \<^item> \<open>yaml_safe_load\<close> is \<open>yaml.safe_load\<close> on a document that is empty (\<open>None\<close>) or a
    mapping with string keys, \<open>Inl\<close> when it raises;
  \<^item> \<open>yaml_dump\<close> is \<open>yaml.dump\<close> on a dictionary;
  \<^item> \<open>SuperDate\<close> is the constructor of \<open>superdate.SuperDate\<close>, \<open>None\<close> when it raises
    \<open>ValueError\<close>;
  \<^item> \<open>today\<close> is what \<open>parse_date('today')\<close> returns;
  \<^item> \<open>is_datetime d\<close> tells whether \<open>type(d._date)\<close> is \<open>datetime.datetime\<close> rather than
    \<open>datetime.date\<close>, and \<open>strftime d fmt\<close> is \<open>d.strftime(fmt)\<close>.
\<close>

record 'd services =
  path_contents :: "string \<Rightarrow> string option"
  yaml_safe_load :: "string \<Rightarrow> error + 'd attributes option"
  yaml_dump :: "'d attributes \<Rightarrow> string"
  SuperDate :: "'d pyval \<Rightarrow> 'd option"
  today :: "'d pyval"
  is_datetime :: "'d \<Rightarrow> bool"
  strftime :: "'d \<Rightarrow> string \<Rightarrow> string"

section \<open>Attributes\<close>

definition dtfields :: "string list" where
  "dtfields = [''event_begin'', ''event_end'', ''recurring_stop'']"

definition is_date_key :: "string \<Rightarrow> bool" where
  "is_date_key key \<longleftrightarrow> key \<in> set dtfields \<or> contains key ''date''"

text \<open>\<open>Attributes.__getitem__\<close>: the stored value, a \<open>NoCompare\<close> on \<open>KeyError\<close>.\<close>

definition Attributes_getitem :: "'d attributes \<Rightarrow> string \<Rightarrow> 'd pyval" where
  "Attributes_getitem a key = (case map_of a key of Some v \<Rightarrow> v | None \<Rightarrow> NoCompare)"

text \<open>\<open>Attributes.__setitem__\<close>.\<close>

definition Attributes_setitem ::
    "'d services \<Rightarrow> 'd attributes \<Rightarrow> string \<Rightarrow> 'd pyval \<Rightarrow> error + 'd attributes" where
  "Attributes_setitem sv a key val =
     (if truthy val \<and> is_date_key key
      then (case SuperDate sv val of
              None \<Rightarrow> Inl ValueError
            | Some d \<Rightarrow> Inr (dict_set key (PSuperDate d) a))
      else Inr (dict_set key val a))"

text \<open>\<open>Attributes.update\<close>: one \<open>__setitem__\<close> for each item, in order.\<close>

fun Attributes_update :: "'d services \<Rightarrow> 'd attributes \<Rightarrow> 'd attributes \<Rightarrow> error + 'd attributes" where
  "Attributes_update sv a [] = Inr a"
| "Attributes_update sv a ((k, v) # kvs) =
     (case Attributes_setitem sv a k v of
        Inl e \<Rightarrow> Inl e
      | Inr a' \<Rightarrow> Attributes_update sv a' kvs)"

text \<open>
  \<open>Attributes.toYamlDict\<close>: every true value under a date key is replaced by its
  rendering; reading \<open>_date\<close> off a value that is no \<open>SuperDate\<close> raises
  \<open>AttributeError\<close>.
\<close>

definition toYamlValue :: "'d services \<Rightarrow> string \<Rightarrow> 'd pyval \<Rightarrow> error + 'd pyval" where
  "toYamlValue sv k v =
     (if truthy v \<and> is_date_key k
      then (case v of
              PSuperDate d \<Rightarrow>
                Inr (PStr (if is_datetime sv d then strftime sv d ''%Y-%m-%d, %a, %H:%M''
                           else strftime sv d ''%Y-%m-%d, %a''))
            | _ \<Rightarrow> Inl AttributeError)
      else Inr v)"

fun toYamlDict :: "'d services \<Rightarrow> 'd attributes \<Rightarrow> error + 'd attributes" where
  "toYamlDict sv [] = Inr []"
| "toYamlDict sv ((k, v) # kvs) =
     (case toYamlValue sv k v of
        Inl e \<Rightarrow> Inl e
      | Inr v' \<Rightarrow> (case toYamlDict sv kvs of Inl e \<Rightarrow> Inl e | Inr r \<Rightarrow> Inr ((k, v') # r)))"

text \<open>\<open>Attributes.__str__\<close>.\<close>

definition Attributes_str :: "'d services \<Rightarrow> 'd attributes \<Rightarrow> error + string" where
  "Attributes_str sv a =
     (case toYamlDict sv a of
        Inl e \<Rightarrow> Inl e
      | Inr d \<Rightarrow> Inr (''---'' @ [CHR 0x0A] @ yaml_dump sv d))"

text \<open>
  Modelled from the spec: \<open>libzet/NoCompare.py\<close> is not among the sources.  The spec
  says of the object a lookup miss returns that it "compares as false against every
  value under every relational operator (equality, ordering)".
\<close>

datatype relop = Eq | Ne | Lt | Gt | Le | Ge

definition NoCompare_compare :: "relop \<Rightarrow> 'd pyval \<Rightarrow> bool" where
  "NoCompare_compare rel x = False"

section \<open>Zettels\<close>

fun ebind :: "'e + 'a \<Rightarrow> ('a \<Rightarrow> 'e + 'b) \<Rightarrow> 'e + 'b" where
  "ebind (Inl e) f = Inl e"
| "ebind (Inr x) f = f x"

record 'd Zettel =
  title :: string
  headings :: "(string \<times> string) list"
  attrs :: "'d attributes"

text \<open>
  \<open>Zettel.__init__(title, headings, attrs)\<close> without keyword arguments (the decoders
  pass none).  \<open>Zettel_attrs\<close> is the part that processes the attributes: they are
  assigned one by one, then \<open>creation_date\<close> and \<open>zlinks\<close> get their defaults when they
  are missing.
\<close>

definition Zettel_attrs :: "'d services \<Rightarrow> 'd attributes \<Rightarrow> error + 'd attributes" where
  "Zettel_attrs sv as =
     ebind (Attributes_update sv [] as) (\<lambda>a1.
     ebind (if ''creation_date'' \<in> set (dict_keys a1) then Inr a1
            else Attributes_setitem sv a1 ''creation_date'' (today sv)) (\<lambda>a2.
     if ''zlinks'' \<in> set (dict_keys a2) then Inr a2
     else Attributes_setitem sv a2 ''zlinks'' (PDict [])))"

definition Zettel_init ::
    "'d services \<Rightarrow> string \<Rightarrow> (string \<times> string) list \<Rightarrow> 'd attributes \<Rightarrow> error + 'd Zettel" where
  "Zettel_init sv t hs as =
     ebind (Zettel_attrs sv as) (\<lambda>a. Inr \<lparr> title = t, headings = hs, attrs = a \<rparr>)"

text \<open>The decoders accept a text or the name of a file that holds it.\<close>

definition read_text :: "'d services \<Rightarrow> string \<Rightarrow> string" where
  "read_text sv s = (case path_contents sv s of Some c \<Rightarrow> c | None \<Rightarrow> s)"

text \<open>
  The split of a document at the attribute marker, as both decoders do it:
  \<open>parts = text.split(attr_header)\<close>, an empty last part is added when there is only
  one, the attribute blob is \<open>parts[-1]\<close> and the body is
  \<open>attr_header.join(parts[:-1])\<close>.
\<close>

definition split_attributes :: "string \<Rightarrow> string \<Rightarrow> string \<times> string" where
  "split_attributes attr_header text =
     (let parts = split text attr_header;
          parts = (if length parts = 1 then parts @ [[]] else parts)
      in (join attr_header (butlast parts), last parts))"

text \<open>\<open>xs[a:b]\<close> for indices that are not negative.\<close>

definition slice :: "'a list \<Rightarrow> nat \<Rightarrow> nat \<Rightarrow> 'a list" where
  "slice xs a b = take (b - a) (drop a xs)"

subsection \<open>Markdown\<close>

definition md_attr_header :: string where
  "md_attr_header = ''<!--- attributes --->''"

definition is_md_heading :: "string \<Rightarrow> bool" where
  "is_md_heading s = startswith (lstrip s) ''## ''"

definition md_title :: "string list \<Rightarrow> string \<times> string list" where
  "md_title md =
     (case md of
        [] \<Rightarrow> ([], md)
      | l # ls \<Rightarrow>
          if startswith (strip l) ''# '' then (join '' '' (drop 1 (split_ws l)), ls)
          else ([], md))"

definition md_heading_pts :: "string list \<Rightarrow> nat list" where
  "md_heading_pts md = [x \<leftarrow> [0..<length md]. is_md_heading (md ! x)] @ [length md]"

definition md_heading_name :: "string \<Rightarrow> string" where
  "md_heading_name l = strip (join [] (drop 1 (split l ''## '')))"

definition md_headings :: "string list \<Rightarrow> (string \<times> string) list" where
  "md_headings md =
     (let heading_pts = md_heading_pts md;
          notes = join [CHR 0x0A] (slice md 0 (hd heading_pts));
          hs0 = (if notes = [] then [] else [(''_notes'', notes)])
      in fold (\<lambda>ptr hs.
                 dict_set (md_heading_name (md ! (heading_pts ! ptr)))
                   (join [CHR 0x0A] (slice md (heading_pts ! ptr + 1) (heading_pts ! (ptr + 1))))
                   hs)
           [0..<length heading_pts - 1] hs0)"

definition createFromMd :: "'d services \<Rightarrow> string \<Rightarrow> error + 'd Zettel" where
  "createFromMd sv text =
     (let md = strip (read_text sv text)
      in if md = [] then Zettel_init sv [] [] []
         else
           (let (body, blob) = split_attributes md_attr_header md
            in ebind (yaml_safe_load sv (strip blob)) (\<lambda>attributes.
                 let (t, md') = md_title (splitlines body)
                 in Zettel_init sv t (md_headings md')
                      (case attributes of None \<Rightarrow> [] | Some a \<Rightarrow> a))))"

text \<open>
  The heading names an encoder goes through, in lower case: the filter when a filter
  with at least one name is given, all stored keys otherwise.
\<close>

definition requested :: "'d Zettel \<Rightarrow> string list option \<Rightarrow> string list" where
  "requested z filt =
     map lower (case filt of
                  None \<Rightarrow> dict_keys (headings z)
                | Some hs \<Rightarrow> if hs = [] then dict_keys (headings z) else hs)"

text \<open>\<open>{k.lower(): k for k in self.headings}\<close>.\<close>

definition lookup_headings :: "'d Zettel \<Rightarrow> (string \<times> string) list" where
  "lookup_headings z = fold (\<lambda>k acc. dict_set (lower k) k acc) (dict_keys (headings z)) []"

text \<open>\<open>self.headings[k]\<close>.\<close>

definition heading_getitem :: "'d Zettel \<Rightarrow> string \<Rightarrow> error + string" where
  "heading_getitem z k = (case map_of (headings z) k of None \<Rightarrow> Inl KeyError | Some b \<Rightarrow> Inr b)"

definition attr_lines :: "'d services \<Rightarrow> 'd Zettel \<Rightarrow> error + string list" where
  "attr_lines sv z =
     ebind (Attributes_str sv (attrs z)) (\<lambda>s. Inr (map (\<lambda>x. ''    '' @ x) (splitlines s)))"

fun md_sections :: "'d Zettel \<Rightarrow> (string \<times> string) list \<Rightarrow> string list \<Rightarrow> error + string list" where
  "md_sections z look [] = Inr []"
| "md_sections z look (heading # rest) =
     (if heading = ''_notes'' \<or> map_of look heading = None then md_sections z look rest
      else (case map_of look heading of
              None \<Rightarrow> Inl KeyError
            | Some k \<Rightarrow>
                ebind (heading_getitem z k) (\<lambda>b.
                ebind (md_sections z look rest) (\<lambda>r. Inr ((''## '' @ k) # b # r)))))"

definition getMd :: "'d services \<Rightarrow> 'd Zettel \<Rightarrow> string list option \<Rightarrow> error + string" where
  "getMd sv z filt =
     (let hs = requested z filt;
          s1 = (if title z \<noteq> [] then [''# '' @ title z] else [])
      in ebind (if ''_notes'' \<in> set hs
                then ebind (heading_getitem z ''_notes'') (\<lambda>n. Inr (if n \<noteq> [] then [n] else []))
                else Inr []) (\<lambda>s2.
         ebind (md_sections z (lookup_headings z) hs) (\<lambda>s3.
         ebind (attr_lines sv z) (\<lambda>s4.
         Inr (join [CHR 0x0A] (s1 @ s2 @ s3 @ [md_attr_header] @ s4 @ [[]]))))))"

subsection \<open>RST\<close>

definition rst_attr_header :: string where
  "rst_attr_header = ''.. attributes'' @ [CHR 0x0A] @ ''::''"

definition is_rst_heading :: "string \<Rightarrow> bool" where
  "is_rst_heading s = (startswith (strip s) ''='' \<and> endswith (strip s) ''='')"

text \<open>
  \<open>xs[i]\<close> and \<open>xs[a:b]\<close> for Python integers: a negative index counts from the end.
  The decoder reads \<open>rst[i]\<close> only for \<open>-1 \<le> i < len(rst)\<close> on a list that is not
  empty (lemma \<open>rst_heading_pts_range\<close>), so the read never raises.
\<close>

definition py_index :: "'a list \<Rightarrow> int \<Rightarrow> 'a" where
  "py_index xs i = xs ! nat (if i < 0 then i + int (length xs) else i)"

definition py_bound :: "'a list \<Rightarrow> int \<Rightarrow> nat" where
  "py_bound xs i =
     (let n = int (length xs); j = (if i < 0 then i + n else i)
      in nat (if j < 0 then 0 else if n < j then n else j))"

definition py_slice :: "'a list \<Rightarrow> int \<Rightarrow> int \<Rightarrow> 'a list" where
  "py_slice xs a b = slice xs (py_bound xs a) (py_bound xs b)"

definition rst_title :: "string list \<Rightarrow> string \<times> string list" where
  "rst_title rst =
     (if 3 \<le> length rst \<and> is_rst_heading (rst ! 0) \<and> is_rst_heading (rst ! 2)
      then (strip (rst ! 1), drop 3 rst)
      else ([], rst))"

definition rst_heading_pts :: "string list \<Rightarrow> int list" where
  "rst_heading_pts rst =
     map (\<lambda>x. int x - 1) [x \<leftarrow> [0..<length rst]. is_rst_heading (rst ! x)] @ [int (length rst)]"

definition rst_headings :: "string list \<Rightarrow> (string \<times> string) list" where
  "rst_headings rst =
     (let heading_pts = rst_heading_pts rst;
          notes = join [CHR 0x0A] (py_slice rst 0 (hd heading_pts));
          hs0 = (if notes = [] then [] else [(''_notes'', notes)])
      in fold (\<lambda>ptr hs.
                 dict_set (py_index rst (heading_pts ! ptr))
                   (join [CHR 0x0A] (py_slice rst (heading_pts ! ptr + 2) (heading_pts ! (ptr + 1))))
                   hs)
           [0..<length heading_pts - 1] hs0)"

definition createFromRst :: "'d services \<Rightarrow> string \<Rightarrow> error + 'd Zettel" where
  "createFromRst sv text =
     (let rst = strip (read_text sv text)
      in if rst = [] then Zettel_init sv [] [] []
         else
           (let (body, blob) = split_attributes rst_attr_header rst
            in ebind (yaml_safe_load sv (strip blob)) (\<lambda>attributes.
                 let (t, rst') = rst_title (splitlines body)
                 in Zettel_init sv t (rst_headings rst')
                      (case attributes of None \<Rightarrow> [] | Some a \<Rightarrow> a))))"

fun rst_sections :: "'d Zettel \<Rightarrow> (string \<times> string) list \<Rightarrow> string list \<Rightarrow> error + string list" where
  "rst_sections z look [] = Inr []"
| "rst_sections z look (heading # rest) =
     (if heading = ''_notes'' \<or> map_of look heading = None then rst_sections z look rest
      else (case map_of look heading of
              None \<Rightarrow> Inl KeyError
            | Some k \<Rightarrow>
                ebind (heading_getitem z k) (\<lambda>b.
                ebind (rst_sections z look rest) (\<lambda>r.
                  Inr (k # replicate (length k) CHR ''='' # b # r)))))"

definition getRst :: "'d services \<Rightarrow> 'd Zettel \<Rightarrow> string list option \<Rightarrow> error + string" where
  "getRst sv z filt =
     (let hs = requested z filt;
          s1 = (if title z \<noteq> []
                then [replicate (length (title z) + 2) CHR ''='', '' '' @ title z,
                      replicate (length (title z) + 2) CHR ''='']
                else [])
      in ebind (if ''_notes'' \<in> set hs
                then ebind (heading_getitem z ''_notes'') (\<lambda>n. Inr [n])
                else Inr []) (\<lambda>s2.
         ebind (rst_sections z (lookup_headings z) hs) (\<lambda>s3.
         ebind (attr_lines sv z) (\<lambda>s4.
         Inr (join [CHR 0x0A] (s1 @ s2 @ s3 @ [''.. attributes'', ''::'', []] @ s4 @ [[]]))))))"

subsection \<open>Update\<close>



section \<open>Many Zettels in one text\<close>

definition rst_sep :: string where
  "rst_sep = ''.. end-zettel''"

definition md_sep :: string where
  "md_sep = ''<!--- end-zettel --->''"

fun map_err :: "('a \<Rightarrow> 'e + 'b) \<Rightarrow> 'a list \<Rightarrow> 'e + 'b list" where
  "map_err f [] = Inr []"
| "map_err f (x # xs) = ebind (f x) (\<lambda>y. ebind (map_err f xs) (\<lambda>ys. Inr (y # ys)))"

text \<open>
  \<open>zettels_to_str(zettels, zettel_format, headings)\<close>.  Strings are ordered as Python
  orders them, by code points and a proper prefix first.
\<close>

definition zettels_to_str ::
    "'d services \<Rightarrow> 'd Zettel list \<Rightarrow> string \<Rightarrow> string list option \<Rightarrow> error + string" where
  "zettels_to_str sv zettels zettel_format filt =
     (if zettel_format \<notin> set [''rst'', ''md''] then Inl ValueError
      else if zettel_format = ''rst''
      then ebind (map_err (\<lambda>x. getRst sv x filt) zettels) (\<lambda>text.
             Inr (join ([CHR 0x0A] @ rst_sep @ [CHR 0x0A, CHR 0x0A, CHR 0x0A])
                    (sort [x \<leftarrow> text. x \<noteq> []])))
      else ebind (map_err (\<lambda>x. getMd sv x filt) zettels) (\<lambda>text.
             Inr (join ([CHR 0x0A] @ md_sep @ [CHR 0x0A, CHR 0x0A, CHR 0x0A])
                    (sort [x \<leftarrow> text. x \<noteq> []]))))"

definition get_zettels_from_md :: "'d services \<Rightarrow> string \<Rightarrow> error + 'd Zettel list" where
  "get_zettels_from_md sv text =
     (let md = strip (read_text sv text)
      in if md = [] then Inr []
         else
           (let texts = split md md_sep;
                texts = (if last texts = [] then butlast texts else texts)
            in map_err (createFromMd sv) texts))"

definition get_zettels_from_rst :: "'d services \<Rightarrow> string \<Rightarrow> error + 'd Zettel list" where
  "get_zettels_from_rst sv text =
     (let rst = strip (read_text sv text)
      in if rst = [] then Inr []
         else
           (let texts = split rst rst_sep;
                texts = (if last texts = [] then butlast texts else texts)
            in map_err (createFromRst sv) texts))"

definition str_to_zettels :: "'d services \<Rightarrow> string \<Rightarrow> string \<Rightarrow> error + 'd Zettel list" where
  "str_to_zettels sv text zettel_format =
     (if zettel_format = ''rst'' then get_zettels_from_rst sv text
      else if zettel_format = ''md'' then get_zettels_from_md sv text
      else Inr [])"

section \<open>A fixed instance of the collaborators\<close>

text \<open>
  The examples below are evaluated against one fixed instance of the collaborators:
  no file exists, the clock stands at Wednesday 2026-11-04, a \<open>SuperDate\<close> object is
  represented by its date-only rendering, and the YAML functions behave as PyYAML does
  on a flat mapping of plain strings and empty dictionaries (keys sorted on output,
  one \<open>key: value\<close> line each).  The theorems about arbitrary inputs never mention it.
\<close>

definition fixture_dates :: "(string \<times> string) list" where
  "fixture_dates =
     [(''today'', ''2026-11-04, Wed''),
      (''next wednesday'', ''2026-11-11, Wed''),
      (''2026-11-04, Wed'', ''2026-11-04, Wed''),
      (''2026-11-11, Wed'', ''2026-11-11, Wed''),
      (''2022-04-19, Tue'', ''2022-04-19, Tue'')]"

fun fixture_SuperDate :: "string pyval \<Rightarrow> string option" where
  "fixture_SuperDate (PSuperDate d) = Some d"
| "fixture_SuperDate (PStr s) = map_of fixture_dates s"
| "fixture_SuperDate _ = None"

fun fixture_scalar :: "string pyval \<Rightarrow> string" where
  "fixture_scalar (PStr s) = (if s = [] then [CHR 0x27, CHR 0x27] else s)"
| "fixture_scalar (PDict kvs) = ''{}''"
| "fixture_scalar _ = ''null''"

definition fixture_dump :: "string attributes \<Rightarrow> string" where
  "fixture_dump d =
     concat (map (\<lambda>(k, v). k @ '': '' @ fixture_scalar v @ [CHR 0x0A]) (sort_key fst d))"

definition fixture_entry :: "string \<Rightarrow> error + (string \<times> string pyval)" where
  "fixture_entry l =
     (case split (lstrip l) '': '' of
        k # v # vs \<Rightarrow>
          (let s = join '': '' (v # vs)
           in Inr (k, if s = ''{}'' then PDict [] else PStr s))
      | _ \<Rightarrow> Inl YAMLError)"

fun fixture_entries :: "string list \<Rightarrow> error + string attributes" where
  "fixture_entries [] = Inr []"
| "fixture_entries (l # ls) =
     (case fixture_entry l of
        Inl e \<Rightarrow> Inl e
      | Inr (k, v) \<Rightarrow>
          (case fixture_entries ls of Inl e \<Rightarrow> Inl e | Inr d \<Rightarrow> Inr (dict_set k v d)))"

definition fixture_load :: "string \<Rightarrow> error + string attributes option" where
  "fixture_load s =
     (case filter (\<lambda>l. strip l \<noteq> ''---'') (splitlines s) of
        [] \<Rightarrow> Inr None
      | ls \<Rightarrow> (case fixture_entries (rev ls) of Inl e \<Rightarrow> Inl e | Inr d \<Rightarrow> Inr (Some d)))"

definition fixture :: "string services" where
  "fixture =
     \<lparr> path_contents = (\<lambda>p. None),
       yaml_safe_load = fixture_load,
       yaml_dump = fixture_dump,
       SuperDate = fixture_SuperDate,
       today = PSuperDate ''2026-11-04, Wed'',
       is_datetime = (\<lambda>d. False),
       strftime = (\<lambda>d fmt. d) \<rparr>"

section \<open>Predicates used in the statements\<close>

text \<open>
  \<open>stored_ok sv k v\<close>: the value \<open>v\<close> is one that \<open>__setitem__\<close> leaves under the key \<open>k\<close>,
  and assigning it again changes nothing: a true value under a date key is a
  \<open>SuperDate\<close> object from which the date service builds an equal object.
\<close>

definition stored_ok :: "'d services \<Rightarrow> string \<Rightarrow> 'd pyval \<Rightarrow> bool" where
  "stored_ok sv k v =
     (if truthy v \<and> is_date_key k
      then (case v of PSuperDate d \<Rightarrow> SuperDate sv v = Some d | _ \<Rightarrow> False)
      else True)"

definition coerced :: "'d services \<Rightarrow> 'd attributes \<Rightarrow> bool" where
  "coerced sv a = list_all (\<lambda>(k, v). stored_ok sv k v) a"

text \<open>Two Zettels for the examples.\<close>

definition zettel_a :: "string Zettel" where
  "zettel_a =
     \<lparr> title = ''a'', headings = [(''_notes'', ''first'')],
       attrs = [(''creation_date'', PSuperDate ''2026-11-04, Wed''), (''zlinks'', PDict [])] \<rparr>"

definition zettel_b :: "string Zettel" where
  "zettel_b =
     \<lparr> title = ''b'', headings = [(''h'', ''second'')],
       attrs = [(''creation_date'', PSuperDate ''2026-11-04, Wed''), (''zlinks'', PDict [])] \<rparr>"

text \<open>The Markdown text of the concrete scenario of the specification.\<close>

definition scenario_md :: string where
  "scenario_md =
     ''# my title\<newline>\<newline>content\<newline>\<newline><!--- attributes --->\<newline>    ---\<newline>    greeting: hello\<newline>''"

text \<open>
  A separator is free of borders when none of its proper suffixes that are not empty is
  one of its prefixes: two occurrences of such a separator in a text never overlap.
\<close>

definition border_free :: "string \<Rightarrow> bool" where
  "border_free sep = list_all (\<lambda>k. \<not> prefix (drop k sep) sep) [1..<length sep]"

text \<open>
  The Zettels whose text can be read back.  The encoders write titles, heading names
  and bodies as they are, so a Zettel is read back as it was only if its parts do not
  look like the syntax around them:
  \<^item> \<open>_notes\<close>, when stored, is the first heading and is not empty;
  \<^item> a body breaks its lines with line feeds only, and none of its lines is a heading
    marker of the dialect;
  \<^item> a Markdown title is written with single blanks between its words, a Markdown
    heading name has no white space around it, no line break and no \<open>##\<close> marker;
  \<^item> an RST title has no white space around it and no line break, an RST heading name
    is not empty, has no line break and is not a rule of \<open>=\<close>;
  \<^item> without a title, the text does not start with white space, nor, in Markdown,
    with a line that reads as a title.
\<close>

definition no_linebreak :: "string \<Rightarrow> bool" where
  "no_linebreak s = list_all (\<lambda>c. \<not> islinebreak c) s"

definition only_nl :: "string \<Rightarrow> bool" where
  "only_nl s = list_all (\<lambda>c. \<not> islinebreak c \<or> c = CHR 0x0A) s"

definition notes_of :: "(string \<times> string) list \<Rightarrow> string option" where
  "notes_of hs = (case hs of [] \<Rightarrow> None | (k, b) # r \<Rightarrow> if k = ''_notes'' then Some b else None)"

definition named_of :: "(string \<times> string) list \<Rightarrow> (string \<times> string) list" where
  "named_of hs = (case hs of [] \<Rightarrow> [] | (k, b) # r \<Rightarrow> if k = ''_notes'' then r else hs)"

definition md_title_ok :: "string \<Rightarrow> bool" where
  "md_title_ok t = (t = [] \<or> join '' '' (split_ws t) = t)"

definition md_name_ok :: "string \<Rightarrow> bool" where
  "md_name_ok k = (strip k = k \<and> no_linebreak k \<and> \<not> contains k ''## '')"

definition md_body_ok :: "string \<Rightarrow> bool" where
  "md_body_ok b = (only_nl b \<and> list_all (\<lambda>l. \<not> is_md_heading l) (split b [CHR 0x0A]))"

definition md_wf :: "'d Zettel \<Rightarrow> bool" where
  "md_wf z =
     (md_title_ok (title z)
      \<and> (case notes_of (headings z) of
            None \<Rightarrow> True
          | Some n \<Rightarrow>
              n \<noteq> [] \<and> md_body_ok n
              \<and> (title z \<noteq> []
                  \<or> (\<not> isspace (hd n) \<and> \<not> startswith (strip (hd (split n [CHR 0x0A]))) ''# '')))
      \<and> ''_notes'' \<notin> set (map fst (named_of (headings z)))
      \<and> list_all (\<lambda>p. md_name_ok (fst p) \<and> md_body_ok (snd p)) (named_of (headings z)))"

definition rst_title_ok :: "string \<Rightarrow> bool" where
  "rst_title_ok t = (t = [] \<or> (strip t = t \<and> no_linebreak t))"

definition rst_name_ok :: "string \<Rightarrow> bool" where
  "rst_name_ok k = (k \<noteq> [] \<and> no_linebreak k \<and> \<not> is_rst_heading k)"

definition rst_body_ok :: "string \<Rightarrow> bool" where
  "rst_body_ok b = (only_nl b \<and> list_all (\<lambda>l. \<not> is_rst_heading l) (split b [CHR 0x0A]))"

definition rst_wf :: "'d Zettel \<Rightarrow> bool" where
  "rst_wf z =
     (rst_title_ok (title z)
      \<and> (case notes_of (headings z) of
            None \<Rightarrow>
              title z \<noteq> []
              \<or> (case named_of (headings z) of [] \<Rightarrow> True | p # r \<Rightarrow> \<not> isspace (hd (fst p)))
          | Some n \<Rightarrow> n \<noteq> [] \<and> rst_body_ok n \<and> (title z \<noteq> [] \<or> \<not> isspace (hd n)))
      \<and> ''_notes'' \<notin> set (map fst (named_of (headings z)))
      \<and> list_all (\<lambda>p. rst_name_ok (fst p) \<and> rst_body_ok (snd p)) (named_of (headings z)))"

text \<open>
  Both encoders find the headings to write through the lower-case forms of their names:
  \<open>requested\<close> lists the stored names in lower case, the test for the notes is made on
  that list, and \<open>lookup_headings\<close> maps each lower-case form to one stored name.  Where
  two stored names read the same in lower case, or a stored name other than \<open>_notes\<close>
  reads \<open>_notes\<close> in lower case, the encoders do not write the headings as they are
  stored: they write one of the two headings twice, or raise \<open>KeyError\<close>.  \<open>keys_differ\<close>
  holds of the Zettels where neither happens; the round trip is stated for those, and
  nothing is stated about the others.
\<close>

definition keys_differ :: "'d Zettel \<Rightarrow> bool" where
  "keys_differ z =
     (distinct (map lower (dict_keys (headings z)))
      \<and> list_all (\<lambda>k. lower k \<noteq> ''_notes'' \<or> k = ''_notes'') (dict_keys (headings z)))"

text \<open>Equality of two dictionaries as Python's \<open>==\<close> decides it: the same keys with the same values.\<close>

definition dict_eq :: "('k \<times> 'v) list \<Rightarrow> ('k \<times> 'v) list \<Rightarrow> bool" where
  "dict_eq a b = list_all (\<lambda>k. map_of a k = map_of b k) (dict_keys a @ dict_keys b)"

text \<open>
  The text both encoders write after the attribute marker: a line feed before every
  line of the attribute block and one more at the end.  \<open>dump_lines sv y\<close> are the lines
  of the block when \<open>toYamlDict\<close> has returned \<open>y\<close>: the document marker and the dump of
  \<open>y\<close>, indented by four blanks.
\<close>

definition attr_blob :: "string list \<Rightarrow> string" where
  "attr_blob ls = concat (map (\<lambda>l. CHR 0x0A # l) (ls @ [[]]))"

definition dump_lines :: "'d services \<Rightarrow> 'd attributes \<Rightarrow> string list" where
  "dump_lines sv y = map (\<lambda>x. ''    '' @ x) (splitlines (''---'' @ [CHR 0x0A] @ yaml_dump sv y))"

text \<open>
  What the round trip of the attributes asks of the YAML library, for the dictionary
  \<open>a\<close>: the text written after the marker \<open>hdr\<close> (\<open>pre\<close> is what the dialect puts between
  the marker and the block) does not contain the marker, and \<open>yaml.safe_load\<close> reads
  it, stripped, as a dictionary equal to the one that was dumped.
\<close>

definition yaml_reloads :: "'d services \<Rightarrow> string \<Rightarrow> string \<Rightarrow> 'd attributes \<Rightarrow> bool" where
  "yaml_reloads sv hdr pre a =
     (case toYamlDict sv a of
        Inl e \<Rightarrow> False
      | Inr y \<Rightarrow>
          \<not> contains (pre @ attr_blob (dump_lines sv y)) hdr
          \<and> (case yaml_safe_load sv (strip (pre @ attr_blob (dump_lines sv y))) of
                Inl e \<Rightarrow> False
              | Inr None \<Rightarrow> False
              | Inr (Some y') \<Rightarrow> distinct (dict_keys y') \<and> dict_eq y' y))"

text \<open>
  What it asks of the date library: every true value under a date key is a \<open>SuperDate\<close>,
  its rendering (the one \<open>toYamlDict\<close> writes) is not empty, and \<open>SuperDate\<close> parses the
  rendering to the same date.
\<close>

definition rendering :: "'d services \<Rightarrow> 'd \<Rightarrow> string" where
  "rendering sv d =
     (if is_datetime sv d then strftime sv d ''%Y-%m-%d, %a, %H:%M''
      else strftime sv d ''%Y-%m-%d, %a'')"

definition date_reparses :: "'d services \<Rightarrow> string \<Rightarrow> 'd pyval \<Rightarrow> bool" where
  "date_reparses sv k v =
     (if truthy v \<and> is_date_key k
      then (case v of
              PSuperDate d \<Rightarrow>
                rendering sv d \<noteq> [] \<and> SuperDate sv (PStr (rendering sv d)) = Some d
            | _ \<Rightarrow> False)
      else True)"

definition dates_reparse :: "'d services \<Rightarrow> 'd attributes \<Rightarrow> bool" where
  "dates_reparse sv a = list_all (\<lambda>(k, v). date_reparses sv k v) a"

text \<open>The two attributes every Zettel has from its constructor.\<close>

definition has_defaults :: "'d attributes \<Rightarrow> bool" where
  "has_defaults a = (''creation_date'' \<in> set (dict_keys a) \<and> ''zlinks'' \<in> set (dict_keys a))"

text \<open>
  The sections of a Markdown body as one scan from the left finds them: every heading
  line opens a section that runs up to the next heading line.  The decoder computes
  them through a list of indices (lemma \<open>md_headings_scan\<close>).
\<close>

fun md_segments :: "string list \<Rightarrow> (string \<times> string) list" where
  "md_segments [] = []"
| "md_segments (l # ls) =
     (if is_md_heading l
      then (md_heading_name l, join [CHR 0x0A] (takeWhile (\<lambda>x. \<not> is_md_heading x) ls))
             # md_segments ls
      else md_segments ls)"

text \<open>One round of the loop of the Markdown decoder, for the pair of indices it reads.\<close>

definition md_section :: "string list \<Rightarrow> nat \<times> nat \<Rightarrow> string \<times> string" where
  "md_section md = (\<lambda>(a, b). (md_heading_name (md ! a), join [CHR 0x0A] (slice md (a + 1) b)))"

text \<open>The lines a Markdown section is written as: the heading line and the lines of the body.\<close>

definition md_section_lines :: "string \<times> string \<Rightarrow> string list" where
  "md_section_lines p = (''## '' @ fst p) # split (snd p) [CHR 0x0A]"

text \<open>
  The pieces a well-formed Zettel is written as in Markdown, before the attribute
  marker: the title line, the notes, and for every other heading its line and its body.
\<close>

definition md_parts :: "'d Zettel \<Rightarrow> string list" where
  "md_parts z =
     (if title z \<noteq> [] then [''# '' @ title z] else [])
     @ (case notes_of (headings z) of None \<Rightarrow> [] | Some n \<Rightarrow> [n])
     @ concat (map (\<lambda>p. [''## '' @ fst p, snd p]) (named_of (headings z)))"

text \<open>
  The same for RST: the lines a section is written as, the pieces of a well-formed
  Zettel before the attribute marker, and one round of the loop of the decoder.
\<close>

definition rst_section_lines :: "string \<times> string \<Rightarrow> string list" where
  "rst_section_lines p = fst p # replicate (length (fst p)) CHR ''='' # split (snd p) [CHR 0x0A]"

definition rst_parts :: "'d Zettel \<Rightarrow> string list" where
  "rst_parts z =
     (if title z \<noteq> []
      then [replicate (length (title z) + 2) CHR ''='', '' '' @ title z,
            replicate (length (title z) + 2) CHR ''='']
      else [])
     @ (case notes_of (headings z) of None \<Rightarrow> [] | Some n \<Rightarrow> [n])
     @ concat (map (\<lambda>p. [fst p, replicate (length (fst p)) CHR ''='', snd p]) (named_of (headings z)))"

definition rst_section :: "string list \<Rightarrow> int \<times> int \<Rightarrow> string \<times> string" where
  "rst_section rst = (\<lambda>(a, b). (py_index rst a, join [CHR 0x0A] (py_slice rst (a + 2) b)))"

definition rst_segments :: "string list \<Rightarrow> (string \<times> string) list" where
  "rst_segments rst = map (rst_section rst) (zip (rst_heading_pts rst) (tl (rst_heading_pts rst)))"

section \<open>The round trip\<close>

text \<open>
  The text that an encoder returns is read back as it is when it does not name a file.
\<close>

definition names_no_file :: "'d services \<Rightarrow> error + string \<Rightarrow> bool" where
  "names_no_file sv r = (case r of Inl e \<Rightarrow> True | Inr text \<Rightarrow> path_contents sv text = None)"

text \<open>
  Two Zettels for the round trip: one with a title, notes, two named headings and an
  attribute beside the defaults, and one whose title ends with a blank.
\<close>

definition zettel_c :: "string Zettel" where
  "zettel_c =
     \<lparr> title = ''my title'',
       headings = [(''_notes'', ''intro\<newline>more''), (''Heading One'', ''body\<newline>''), (''two'', [])],
       attrs = [(''creation_date'', PSuperDate ''2026-11-04, Wed''), (''zlinks'', PDict []),
                (''greeting'', PStr ''hello'')] \<rparr>"

definition zettel_d :: "string Zettel" where
  "zettel_d =
     \<lparr> title = ''t '', headings = [],
       attrs = [(''creation_date'', PSuperDate ''2026-11-04, Wed''), (''zlinks'', PDict [])] \<rparr>"

section \<open>Attribute lookups and assignments\<close>

lemma fixture_sel [simp]:
  "SuperDate fixture = fixture_SuperDate"
  "today fixture = PSuperDate ''2026-11-04, Wed''"
  "yaml_dump fixture = fixture_dump"
  "yaml_safe_load fixture = fixture_load"
  "path_contents fixture = (\<lambda>p. None)"
  "is_datetime fixture = (\<lambda>d. False)"
  "strftime fixture = (\<lambda>d fmt. d)"
  by (simp_all add: fixture_def)

lemmas date_key_eval = is_date_key_def contains_def dtfields_def sublist_Cons_right

lemma map_of_None_iff_keys: "map_of a key = None \<longleftrightarrow> key \<notin> set (dict_keys a)"
  by (simp add: dict_keys_def map_of_eq_None_iff)

text \<open>
  C3.  A lookup of a key that is not stored raises nothing (the lookup is a total
  function into values) and returns the \<open>NoCompare\<close> object, and every relational
  comparison of that object against a value \<open>x\<close> that is not itself \<open>NoCompare\<close>
  is false.
\<close>

theorem C3_lookup_miss:
  assumes "key \<notin> set (dict_keys a)" and "x \<noteq> NoCompare"
  shows "Attributes_getitem a key = NoCompare \<and> \<not> NoCompare_compare rel x"
  using assms by (simp add: Attributes_getitem_def NoCompare_compare_def map_of_None_iff_keys [symmetric])

theorem C3_lookup_miss_witness:
  "''x'' \<notin> set (dict_keys [(''greeting'', PStr ''hello'' :: string pyval)])
   \<and> (PInt 0 :: string pyval) \<noteq> NoCompare
   \<and> Attributes_getitem [(''greeting'', PStr ''hello'' :: string pyval)] ''x'' = NoCompare
   \<and> \<not> NoCompare_compare Le (PInt 0 :: string pyval)"
  using C3_lookup_miss [of "''x''" "[(''greeting'', PStr ''hello'' :: string pyval)]" "PInt 0" Le]
  by (simp add: dict_keys_def)

text \<open>
  C4, as the claim states it, fails at the empty string: assigned to the date key
  \<open>due_date\<close> it is stored as it is.  With a date service that rejects it no error is
  raised, and with a date service that accepts every value no date is stored.
\<close>

theorem C4_counterexample:
  "is_date_key ''due_date''
   \<and> SuperDate fixture (PStr '''') = None
   \<and> Attributes_setitem fixture [] ''due_date'' (PStr '''') = Inr [(''due_date'', PStr '''')]
   \<and> SuperDate (fixture \<lparr> SuperDate := (\<lambda>v. Some ''2026-11-04, Wed'') \<rparr>) (PStr '''')
        = Some ''2026-11-04, Wed''
   \<and> Attributes_setitem (fixture \<lparr> SuperDate := (\<lambda>v. Some ''2026-11-04, Wed'') \<rparr>)
        [] ''due_date'' (PStr '''') = Inr [(''due_date'', PStr '''')]"
  by (simp add: is_date_key_def contains_def dtfields_def Attributes_setitem_def
      fixture_dates_def sublist_Cons_right)

text \<open>
  C4, amended.  For a key that contains \<open>date\<close> or is one of \<open>event_begin\<close>,
  \<open>event_end\<close>, \<open>recurring_stop\<close>, assigning a string that is not empty stores the
  \<open>SuperDate\<close> the date service builds from it, and fails with the service's
  \<open>ValueError\<close> when the service rejects the string.  For any other key the assigned
  value is stored unchanged, whatever it is.
\<close>

theorem C4_date_coercion:
  "(is_date_key key \<and> s \<noteq> [] \<longrightarrow>
      Attributes_setitem sv a key (PStr s) =
        (case SuperDate sv (PStr s) of
           Some d \<Rightarrow> Inr (dict_set key (PSuperDate d) a)
         | None \<Rightarrow> Inl ValueError))
   \<and> (\<not> is_date_key key \<longrightarrow> Attributes_setitem sv a key v = Inr (dict_set key v a))"
  by (simp add: Attributes_setitem_def split: option.splits)

theorem C4_date_coercion_witness:
  "is_date_key ''due_date'' \<and> is_date_key ''event_begin'' \<and> \<not> is_date_key ''greeting''
   \<and> Attributes_setitem fixture [] ''due_date'' (PStr ''next wednesday'')
        = Inr [(''due_date'', PSuperDate ''2026-11-11, Wed'')]
   \<and> Attributes_setitem fixture [] ''event_begin'' (PStr ''no such day'') = Inl ValueError
   \<and> Attributes_setitem fixture [] ''greeting'' (PStr ''today'') = Inr [(''greeting'', PStr ''today'')]"
proof -
  have k: "is_date_key ''due_date''" "is_date_key ''event_begin''" "\<not> is_date_key ''greeting''"
    by (simp_all add: is_date_key_def contains_def dtfields_def sublist_Cons_right)
  have 1: "Attributes_setitem fixture [] ''due_date'' (PStr ''next wednesday'')
        = Inr [(''due_date'', PSuperDate ''2026-11-11, Wed'')]"
    using C4_date_coercion [of "''due_date''" "''next wednesday''" fixture "[]" PNone] k
    by (simp add: fixture_dates_def)
  have 2: "Attributes_setitem fixture [] ''event_begin'' (PStr ''no such day'') = Inl ValueError"
    using C4_date_coercion [of "''event_begin''" "''no such day''" fixture "[]" PNone] k
    by (simp add: fixture_dates_def)
  have 3: "Attributes_setitem fixture [] ''greeting'' (PStr ''today'') = Inr [(''greeting'', PStr ''today'')]"
    using C4_date_coercion [of "''greeting''" "''x''" fixture "[]" "PStr ''today''"] k
    by simp
  show ?thesis using k 1 2 3 by simp
qed

text \<open>
  C9.  A false value (the empty string, \<open>None\<close>, \<open>0\<close>, an empty mapping) assigned to a
  date key is stored unchanged: the date service is not consulted, so the result is the
  same for every service, and no error is raised.
\<close>

theorem C9_falsy_skips_coercion:
  assumes "is_date_key key" and "\<not> truthy v"
  shows "Attributes_setitem sv a key v = Inr (dict_set key v a)"
  using assms by (simp add: Attributes_setitem_def)

theorem C9_falsy_skips_coercion_witness:
  "is_date_key ''due_date''
   \<and> \<not> truthy (PStr '''' :: string pyval) \<and> \<not> truthy (PNone :: string pyval)
   \<and> \<not> truthy (PInt 0 :: string pyval) \<and> \<not> truthy (PDict [] :: string pyval)
   \<and> Attributes_setitem (fixture \<lparr> SuperDate := (\<lambda>v. None) \<rparr>) [] ''due_date'' (PStr '''')
        = Inr [(''due_date'', PStr '''')]
   \<and> Attributes_setitem (fixture \<lparr> SuperDate := (\<lambda>v. None) \<rparr>) [] ''due_date'' PNone
        = Inr [(''due_date'', PNone)]
   \<and> Attributes_setitem (fixture \<lparr> SuperDate := (\<lambda>v. None) \<rparr>) [] ''due_date'' (PInt 0)
        = Inr [(''due_date'', PInt 0)]
   \<and> Attributes_setitem (fixture \<lparr> SuperDate := (\<lambda>v. None) \<rparr>) [] ''due_date'' (PDict [])
        = Inr [(''due_date'', PDict [])]"
proof -
  have k: "is_date_key ''due_date''"
    by (simp add: is_date_key_def contains_def dtfields_def sublist_Cons_right)
  show ?thesis
    using k
      C9_falsy_skips_coercion [OF k, of "PStr ''''" "fixture \<lparr> SuperDate := (\<lambda>v. None) \<rparr>" "[]"]
      C9_falsy_skips_coercion [OF k, of PNone "fixture \<lparr> SuperDate := (\<lambda>v. None) \<rparr>" "[]"]
      C9_falsy_skips_coercion [OF k, of "PInt 0" "fixture \<lparr> SuperDate := (\<lambda>v. None) \<rparr>" "[]"]
      C9_falsy_skips_coercion [OF k, of "PDict []" "fixture \<lparr> SuperDate := (\<lambda>v. None) \<rparr>" "[]"]
    by simp
qed

section \<open>Empty input\<close>

lemma strip_all_space:
  assumes "\<forall>c\<in>set s. isspace c"
  shows "strip s = []"
proof -
  have h: "dropWhile isspace (rev s) = []"
    using assms by (metis dropWhile_eq_Nil_conv set_rev)
  show ?thesis
    unfolding strip_def lstrip_def rstrip_def h by simp
qed

lemma read_text_literal: "path_contents sv s = None \<Longrightarrow> read_text sv s = s"
  by (simp add: read_text_def)

lemma Zettel_init_empty:
  assumes "truthy (today sv)" and "SuperDate sv (today sv) = Some d"
  shows "Zettel_init sv [] [] [] =
           Inr \<lparr> title = [], headings = [],
                 attrs = [(''creation_date'', PSuperDate d), (''zlinks'', PDict [])] \<rparr>"
proof -
  have k: "is_date_key ''creation_date''"
    by (simp add: is_date_key_def contains_def dtfields_def sublist_Cons_right)
  have 1: "Attributes_setitem sv [] ''creation_date'' (today sv) = Inr [(''creation_date'', PSuperDate d)]"
    using assms k by (simp add: Attributes_setitem_def)
  have 2: "Attributes_setitem sv [(''creation_date'', PSuperDate d)] ''zlinks'' (PDict [])
             = Inr [(''creation_date'', PSuperDate d), (''zlinks'', PDict [])]"
    by (simp add: Attributes_setitem_def)
  show ?thesis
    by (simp add: Zettel_init_def Zettel_attrs_def dict_keys_def 1 2)
qed

text \<open>
  C6.  Unpacking the empty string yields no Zettel in either dialect (no file is named
  by the empty string).  Decoding a text that is empty or all whitespace, and is not the
  name of a file, yields in either dialect the Zettel with empty title, no headings and
  exactly the two default attributes: \<open>creation_date\<close>, the \<open>SuperDate\<close> of today, and
  \<open>zlinks\<close>, the empty mapping.
\<close>

theorem C6_empty_input:
  assumes "path_contents sv [] = None"
    and "path_contents sv s = None" and "\<forall>c\<in>set s. isspace c"
    and "truthy (today sv)" and "SuperDate sv (today sv) = Some d"
  shows "str_to_zettels sv [] ''md'' = Inr []
       \<and> str_to_zettels sv [] ''rst'' = Inr []
       \<and> createFromMd sv s =
           Inr \<lparr> title = [], headings = [],
                 attrs = [(''creation_date'', PSuperDate d), (''zlinks'', PDict [])] \<rparr>
       \<and> createFromRst sv s =
           Inr \<lparr> title = [], headings = [],
                 attrs = [(''creation_date'', PSuperDate d), (''zlinks'', PDict [])] \<rparr>"
proof -
  have e: "strip (read_text sv []) = []"
    using assms(1) by (simp add: read_text_literal strip_all_space)
  have s: "strip (read_text sv s) = []"
    using assms(2,3) by (simp add: read_text_literal strip_all_space)
  have 1: "str_to_zettels sv [] ''md'' = Inr []"
    by (simp add: str_to_zettels_def get_zettels_from_md_def e)
  have 2: "str_to_zettels sv [] ''rst'' = Inr []"
    by (simp add: str_to_zettels_def get_zettels_from_rst_def e)
  have 3: "createFromMd sv s = Zettel_init sv [] [] []"
    by (simp add: createFromMd_def s)
  have 4: "createFromRst sv s = Zettel_init sv [] [] []"
    by (simp add: createFromRst_def s)
  show ?thesis
    using 1 2 3 4 Zettel_init_empty [OF assms(4,5)] by simp
qed

theorem C6_empty_input_witness:
  "path_contents fixture [] = None
   \<and> path_contents fixture [CHR '' '', CHR 0x0A, CHR 0x09] = None
   \<and> isspace CHR '' '' \<and> isspace (CHR 0x0A) \<and> isspace (CHR 0x09)
   \<and> truthy (today fixture) \<and> SuperDate fixture (today fixture) = Some ''2026-11-04, Wed''
   \<and> str_to_zettels fixture [] ''md'' = Inr []
   \<and> str_to_zettels fixture [] ''rst'' = Inr []
   \<and> createFromMd fixture [CHR '' '', CHR 0x0A, CHR 0x09] =
        Inr \<lparr> title = [], headings = [],
              attrs = [(''creation_date'', PSuperDate ''2026-11-04, Wed''), (''zlinks'', PDict [])] \<rparr>
   \<and> createFromRst fixture [CHR '' '', CHR 0x0A, CHR 0x09] =
        Inr \<lparr> title = [], headings = [],
              attrs = [(''creation_date'', PSuperDate ''2026-11-04, Wed''), (''zlinks'', PDict [])] \<rparr>"
proof -
  have sp: "isspace CHR '' ''" "isspace (CHR 0x0A)" "isspace (CHR 0x09)"
    by (simp_all add: isspace_def)
  have a: "\<forall>c\<in>set [CHR '' '', CHR 0x0A, CHR 0x09]. isspace c"
    using sp by simp
  have "path_contents fixture [] = None"
    and "path_contents fixture [CHR '' '', CHR 0x0A, CHR 0x09] = None"
    and "truthy (today fixture)"
    and "SuperDate fixture (today fixture) = Some ''2026-11-04, Wed''"
    by simp_all
  from C6_empty_input [OF this(1) this(2) a this(3) this(4)] sp show ?thesis
    by simp
qed

section \<open>The reserved heading and the encoders\<close>

lemma heading_getitem_missing:
  "k \<notin> set (dict_keys (headings z)) \<Longrightarrow> heading_getitem z k = Inl KeyError"
  by (simp add: heading_getitem_def map_of_None_iff_keys [symmetric])

lemma heading_getitem_stored:
  "k \<in> set (dict_keys (headings z)) \<Longrightarrow> \<exists>b. heading_getitem z k = Inr b"
  by (cases "map_of (headings z) k")
     (simp_all add: heading_getitem_def map_of_None_iff_keys)

lemma requested_filter:
  "f \<noteq> [] \<Longrightarrow> requested z (Some f) = map lower f"
  by (simp add: requested_def)

lemma requested_all:
  "requested z None = map lower (dict_keys (headings z))"
  "requested z (Some []) = map lower (dict_keys (headings z))"
  by (simp_all add: requested_def)

text \<open>
  The first half of C10: a filter that names \<open>_notes\<close>, in any letter case, makes both
  encoders raise \<open>KeyError\<close> when no \<open>_notes\<close> heading is stored.
\<close>

lemma filter_notes_KeyError:
  assumes "x \<in> set f" and "lower x = ''_notes''"
    and "''_notes'' \<notin> set (dict_keys (headings z))"
  shows "getMd sv z (Some f) = Inl KeyError \<and> getRst sv z (Some f) = Inl KeyError"
proof -
  have ne: "f \<noteq> []" using assms(1) by auto
  have "''_notes'' \<in> set (requested z (Some f))"
    using assms(1,2) by (force simp: requested_filter [OF ne])
  then show ?thesis
    by (simp add: getMd_def getRst_def heading_getitem_missing [OF assms(3)])
qed

text \<open>
  Without a filter the lookup of \<open>_notes\<close> is made as soon as some stored key reads
  \<open>_notes\<close> in lower case, whether or not the key \<open>_notes\<close> itself is stored.
\<close>

lemma no_filter_KeyError:
  assumes "k \<in> set (dict_keys (headings z))" and "lower k = ''_notes''"
    and "''_notes'' \<notin> set (dict_keys (headings z))"
  shows "getMd sv z None = Inl KeyError \<and> getRst sv z None = Inl KeyError"
proof -
  have "''_notes'' \<in> set (requested z None)"
    using assms(1,2) by (force simp: requested_all)
  then show ?thesis
    by (simp add: getMd_def getRst_def heading_getitem_missing [OF assms(3)])
qed

text \<open>
  C10.  The second half of the claim fails on the code.  The Markdown text below
  decodes to a Zettel whose only heading is \<open>_Notes\<close>; encoding that Zettel without a
  filter raises \<open>KeyError\<close> in both dialects, because the guard tests the lower-cased
  names while the lookup uses the literal key \<open>_notes\<close>.
\<close>

theorem C10_no_filter_KeyError:
  "createFromMd fixture (''# t'' @ [CHR 0x0A] @ ''## _Notes'' @ [CHR 0x0A] @ ''x'') =
     Inr \<lparr> title = ''t'', headings = [(''_Notes'', ''x'')],
           attrs = [(''creation_date'', PSuperDate ''2026-11-04, Wed''), (''zlinks'', PDict [])] \<rparr>
   \<and> getMd fixture
        \<lparr> title = ''t'', headings = [(''_Notes'', ''x'')],
          attrs = [(''creation_date'', PSuperDate ''2026-11-04, Wed''), (''zlinks'', PDict [])] \<rparr>
        None = Inl KeyError
   \<and> getRst fixture
        \<lparr> title = ''t'', headings = [(''_Notes'', ''x'')],
          attrs = [(''creation_date'', PSuperDate ''2026-11-04, Wed''), (''zlinks'', PDict [])] \<rparr>
        None = Inl KeyError"
  by code_simp

section \<open>Dictionaries\<close>


lemma keys_dict_set: "set (dict_keys (dict_set k v d)) = insert k (set (dict_keys d))"
  by (induction d) (auto simp: dict_keys_def)

lemma dict_set_new: "k \<notin> set (dict_keys d) \<Longrightarrow> dict_set k v d = d @ [(k, v)]"
  by (induction d) (auto simp: dict_keys_def)


lemma map_of_dict_set_at:
  "map_of (dict_set k v d) k' = (if k' = k then Some v else map_of d k')"
  by (induction d) auto


section \<open>Update\<close>

lemma setitem_stored_ok:
  "stored_ok sv k v \<Longrightarrow> Attributes_setitem sv a k v = Inr (dict_set k v a)"
  by (auto simp: stored_ok_def Attributes_setitem_def split: if_splits pyval.splits)

lemma Attributes_update_coerced_append:
  assumes "coerced sv a" and "distinct (dict_keys a)"
    and "set (dict_keys acc) \<inter> set (dict_keys a) = {}"
  shows "Attributes_update sv acc a = Inr (acc @ a)"
  using assms
proof (induction a arbitrary: acc)
  case Nil
  then show ?case by simp
next
  case (Cons p a)
  obtain k v where p: "p = (k, v)" by (cases p)
  have ok: "stored_ok sv k v" and co: "coerced sv a"
    using Cons.prems(1) by (simp_all add: coerced_def p)
  have new: "k \<notin> set (dict_keys acc)"
    using Cons.prems(3) by (auto simp: p dict_keys_def)
  have step: "Attributes_setitem sv acc k v = Inr (acc @ [(k, v)])"
    using setitem_stored_ok [OF ok] dict_set_new [OF new] by simp
  have d: "distinct (dict_keys a)" and nk: "k \<notin> set (dict_keys a)"
    using Cons.prems(2) by (simp_all add: p dict_keys_def)
  have disj: "set (dict_keys (acc @ [(k, v)])) \<inter> set (dict_keys a) = {}"
    using Cons.prems(3) nk by (auto simp: p dict_keys_def)
  show ?case
    using Cons.IH [OF co d disj] by (simp add: p step)
qed

lemma Attributes_update_coerced:
  "coerced sv a \<Longrightarrow> distinct (dict_keys a) \<Longrightarrow> Attributes_update sv [] a = Inr a"
  using Attributes_update_coerced_append [of sv a "[]"] by (simp add: dict_keys_def)







section \<open>Packing many Zettels\<close>

lemma map_err_Inr:
  "map_err f xs = Inr ys \<longleftrightarrow>
     (\<forall>x\<in>set xs. \<exists>y. f x = Inr y) \<and> ys = map (\<lambda>x. projr (f x)) xs"
proof (induction xs arbitrary: ys)
  case Nil
  then show ?case by auto
next
  case (Cons x xs)
  show ?case
  proof (cases "f x")
    case (Inl e)
    then show ?thesis by auto
  next
    case fx: (Inr y)
    show ?thesis
    proof (cases "map_err f xs")
      case (Inl e)
      with Cons.IH fx show ?thesis by auto
    next
      case (Inr zs)
      with Cons.IH [of zs] fx show ?thesis by auto
    qed
  qed
qed

lemma map_err_permuted:
  assumes "mset xs' = mset xs" and "map_err f xs = Inr ys"
  shows "\<exists>ys'. map_err f xs' = Inr ys' \<and> mset ys' = mset ys"
proof -
  have ok: "\<forall>x\<in>set xs. \<exists>y. f x = Inr y" and ys: "ys = map (\<lambda>x. projr (f x)) xs"
    using assms(2) by (simp_all add: map_err_Inr)
  have "set xs' = set xs"
    using assms(1) by (rule mset_eq_setD)
  with ok have "map_err f xs' = Inr (map (\<lambda>x. projr (f x)) xs')"
    by (simp add: map_err_Inr)
  moreover have "mset (map (\<lambda>x. projr (f x)) xs') = mset ys"
    using assms(1) by (simp add: ys)
  ultimately show ?thesis by blast
qed

lemma sort_filter_permuted:
  fixes ys :: "string list"
  assumes "mset ys' = mset ys"
  shows "sort [x \<leftarrow> ys'. x \<noteq> []] = sort [x \<leftarrow> ys. x \<noteq> []]"
proof (rule properties_for_sort)
  show "mset (sort [x \<leftarrow> ys. x \<noteq> []]) = mset [x \<leftarrow> ys'. x \<noteq> []]"
    using assms by simp
  show "sorted (sort [x \<leftarrow> ys. x \<noteq> []])"
    by simp
qed

text \<open>
  C5.  \<open>zettels_to_str\<close> encodes every Zettel on its own, drops the empty texts, sorts
  the rest as strings and joins them with a line feed, the sentinel of the dialect and
  three line feeds.  Hence a list with the same Zettels in another order, if one of the
  two is packed without an error, is packed to the same text.
\<close>

theorem C5_pack_sorted:
  "(map_err (\<lambda>z. getMd sv z filt) zettels = Inr texts \<longrightarrow>
      zettels_to_str sv zettels ''md'' filt =
        Inr (join ([CHR 0x0A] @ ''<!--- end-zettel --->'' @ [CHR 0x0A, CHR 0x0A, CHR 0x0A])
               (sort [x \<leftarrow> texts. x \<noteq> []])))
   \<and> (map_err (\<lambda>z. getRst sv z filt) zettels = Inr texts \<longrightarrow>
      zettels_to_str sv zettels ''rst'' filt =
        Inr (join ([CHR 0x0A] @ ''.. end-zettel'' @ [CHR 0x0A, CHR 0x0A, CHR 0x0A])
               (sort [x \<leftarrow> texts. x \<noteq> []])))
   \<and> (mset zettels' = mset zettels \<and> zettels_to_str sv zettels zettel_format filt = Inr out \<longrightarrow>
      zettels_to_str sv zettels' zettel_format filt = Inr out)"
proof (intro conjI impI)
  assume "map_err (\<lambda>z. getMd sv z filt) zettels = Inr texts"
  then show "zettels_to_str sv zettels ''md'' filt =
        Inr (join ([CHR 0x0A] @ ''<!--- end-zettel --->'' @ [CHR 0x0A, CHR 0x0A, CHR 0x0A])
               (sort [x \<leftarrow> texts. x \<noteq> []]))"
    by (simp add: zettels_to_str_def md_sep_def)
next
  assume "map_err (\<lambda>z. getRst sv z filt) zettels = Inr texts"
  then show "zettels_to_str sv zettels ''rst'' filt =
        Inr (join ([CHR 0x0A] @ ''.. end-zettel'' @ [CHR 0x0A, CHR 0x0A, CHR 0x0A])
               (sort [x \<leftarrow> texts. x \<noteq> []]))"
    by (simp add: zettels_to_str_def rst_sep_def)
next
  assume a: "mset zettels' = mset zettels \<and> zettels_to_str sv zettels zettel_format filt = Inr out"
  then have p: "mset zettels' = mset zettels"
    and r: "zettels_to_str sv zettels zettel_format filt = Inr out"
    by simp_all
  have fmt: "zettel_format = ''rst'' \<or> zettel_format = ''md''"
    using r by (auto simp: zettels_to_str_def split: if_splits)
  then show "zettels_to_str sv zettels' zettel_format filt = Inr out"
  proof
    assume f: "zettel_format = ''rst''"
    from r obtain ys where ys: "map_err (\<lambda>x. getRst sv x filt) zettels = Inr ys"
      by (cases "map_err (\<lambda>x. getRst sv x filt) zettels") (simp_all add: zettels_to_str_def f)
    from map_err_permuted [OF p ys] obtain ys'
      where ys': "map_err (\<lambda>x. getRst sv x filt) zettels' = Inr ys'" and m: "mset ys' = mset ys"
      by blast
    show ?thesis
      using r by (simp add: zettels_to_str_def f ys ys' sort_filter_permuted [OF m])
  next
    assume f: "zettel_format = ''md''"
    from r obtain ys where ys: "map_err (\<lambda>x. getMd sv x filt) zettels = Inr ys"
      by (cases "map_err (\<lambda>x. getMd sv x filt) zettels") (simp_all add: zettels_to_str_def f)
    from map_err_permuted [OF p ys] obtain ys'
      where ys': "map_err (\<lambda>x. getMd sv x filt) zettels' = Inr ys'" and m: "mset ys' = mset ys"
      by blast
    show ?thesis
      using r by (simp add: zettels_to_str_def f ys ys' sort_filter_permuted [OF m])
  qed
qed

theorem C5_pack_sorted_witness:
  "map_err (\<lambda>z. getMd fixture z None) [zettel_a, zettel_b] =
     Inr [''# a\<newline>first\<newline><!--- attributes --->\<newline>    ---\<newline>    creation_date: 2026-11-04, Wed\<newline>    zlinks: {}\<newline>'',
          ''# b\<newline>## h\<newline>second\<newline><!--- attributes --->\<newline>    ---\<newline>    creation_date: 2026-11-04, Wed\<newline>    zlinks: {}\<newline>'']
   \<and> map_err (\<lambda>z. getRst fixture z None) [zettel_a, zettel_b] =
     Inr [''===\<newline> a\<newline>===\<newline>first\<newline>.. attributes\<newline>::\<newline>\<newline>    ---\<newline>    creation_date: 2026-11-04, Wed\<newline>    zlinks: {}\<newline>'',
          ''===\<newline> b\<newline>===\<newline>h\<newline>=\<newline>second\<newline>.. attributes\<newline>::\<newline>\<newline>    ---\<newline>    creation_date: 2026-11-04, Wed\<newline>    zlinks: {}\<newline>'']
   \<and> mset [zettel_b, zettel_a] = mset [zettel_a, zettel_b]
   \<and> zettels_to_str fixture [zettel_a, zettel_b] ''md'' None =
     Inr ''# a\<newline>first\<newline><!--- attributes --->\<newline>    ---\<newline>    creation_date: 2026-11-04, Wed\<newline>    zlinks: {}\<newline>\<newline><!--- end-zettel --->\<newline>\<newline>\<newline># b\<newline>## h\<newline>second\<newline><!--- attributes --->\<newline>    ---\<newline>    creation_date: 2026-11-04, Wed\<newline>    zlinks: {}\<newline>''
   \<and> zettels_to_str fixture [zettel_b, zettel_a] ''md'' None =
     Inr ''# a\<newline>first\<newline><!--- attributes --->\<newline>    ---\<newline>    creation_date: 2026-11-04, Wed\<newline>    zlinks: {}\<newline>\<newline><!--- end-zettel --->\<newline>\<newline>\<newline># b\<newline>## h\<newline>second\<newline><!--- attributes --->\<newline>    ---\<newline>    creation_date: 2026-11-04, Wed\<newline>    zlinks: {}\<newline>''
   \<and> zettels_to_str fixture [zettel_a, zettel_b] ''rst'' None =
     Inr ''===\<newline> a\<newline>===\<newline>first\<newline>.. attributes\<newline>::\<newline>\<newline>    ---\<newline>    creation_date: 2026-11-04, Wed\<newline>    zlinks: {}\<newline>\<newline>.. end-zettel\<newline>\<newline>\<newline>===\<newline> b\<newline>===\<newline>h\<newline>=\<newline>second\<newline>.. attributes\<newline>::\<newline>\<newline>    ---\<newline>    creation_date: 2026-11-04, Wed\<newline>    zlinks: {}\<newline>''
   \<and> zettels_to_str fixture [zettel_b, zettel_a] ''rst'' None =
     Inr ''===\<newline> a\<newline>===\<newline>first\<newline>.. attributes\<newline>::\<newline>\<newline>    ---\<newline>    creation_date: 2026-11-04, Wed\<newline>    zlinks: {}\<newline>\<newline>.. end-zettel\<newline>\<newline>\<newline>===\<newline> b\<newline>===\<newline>h\<newline>=\<newline>second\<newline>.. attributes\<newline>::\<newline>\<newline>    ---\<newline>    creation_date: 2026-11-04, Wed\<newline>    zlinks: {}\<newline>''"
proof -
  let ?ma = "''# a\<newline>first\<newline><!--- attributes --->\<newline>    ---\<newline>    creation_date: 2026-11-04, Wed\<newline>    zlinks: {}\<newline>''"
  let ?mb = "''# b\<newline>## h\<newline>second\<newline><!--- attributes --->\<newline>    ---\<newline>    creation_date: 2026-11-04, Wed\<newline>    zlinks: {}\<newline>''"
  let ?ra = "''===\<newline> a\<newline>===\<newline>first\<newline>.. attributes\<newline>::\<newline>\<newline>    ---\<newline>    creation_date: 2026-11-04, Wed\<newline>    zlinks: {}\<newline>''"
  let ?rb = "''===\<newline> b\<newline>===\<newline>h\<newline>=\<newline>second\<newline>.. attributes\<newline>::\<newline>\<newline>    ---\<newline>    creation_date: 2026-11-04, Wed\<newline>    zlinks: {}\<newline>''"
  have md: "map_err (\<lambda>z. getMd fixture z None) [zettel_a, zettel_b] = Inr [?ma, ?mb]"
    unfolding zettel_a_def zettel_b_def by code_simp
  have rst: "map_err (\<lambda>z. getRst fixture z None) [zettel_a, zettel_b] = Inr [?ra, ?rb]"
    unfolding zettel_a_def zettel_b_def by code_simp
  have perm: "mset [zettel_b, zettel_a] = mset [zettel_a, zettel_b]"
    by simp
  have smd: "sort [x \<leftarrow> [?ma, ?mb]. x \<noteq> []] = [?ma, ?mb]"
    by code_simp
  have srst: "sort [x \<leftarrow> [?ra, ?rb]. x \<noteq> []] = [?ra, ?rb]"
    by code_simp
  note md_thm = C5_pack_sorted [of fixture None "[zettel_a, zettel_b]" "[?ma, ?mb]"
      "[zettel_b, zettel_a]" "''md''"]
  note rst_thm = C5_pack_sorted [of fixture None "[zettel_a, zettel_b]" "[?ra, ?rb]"
      "[zettel_b, zettel_a]" "''rst''"]
  have 1: "zettels_to_str fixture [zettel_a, zettel_b] ''md'' None
             = Inr (?ma @ ''\<newline><!--- end-zettel --->\<newline>\<newline>\<newline>'' @ ?mb)"
    using md_thm md unfolding smd by simp
  have 2: "zettels_to_str fixture [zettel_b, zettel_a] ''md'' None
             = Inr (?ma @ ''\<newline><!--- end-zettel --->\<newline>\<newline>\<newline>'' @ ?mb)"
    using md_thm perm 1 by blast
  have 3: "zettels_to_str fixture [zettel_a, zettel_b] ''rst'' None
             = Inr (?ra @ ''\<newline>.. end-zettel\<newline>\<newline>\<newline>'' @ ?rb)"
    using rst_thm rst unfolding srst by simp
  have 4: "zettels_to_str fixture [zettel_b, zettel_a] ''rst'' None
             = Inr (?ra @ ''\<newline>.. end-zettel\<newline>\<newline>\<newline>'' @ ?rb)"
    using rst_thm perm 3 by blast
  show ?thesis
    using md rst perm 1 2 3 4 by simp
qed

section \<open>The concrete scenario\<close>

lemma creation_date_is_date_key: "is_date_key ''creation_date''"
  by (simp add: date_key_eval)

lemma zlinks_no_date_key: "\<not> is_date_key ''zlinks''"
  by (simp add: date_key_eval)

lemma Zettel_init_defaults:
  assumes "coerced sv as" and "distinct (dict_keys as)"
    and "''creation_date'' \<notin> set (dict_keys as)" and "''zlinks'' \<notin> set (dict_keys as)"
    and "truthy (today sv)" and "SuperDate sv (today sv) = Some d"
  shows "Zettel_init sv t hs as =
           Inr \<lparr> title = t, headings = hs,
                 attrs = as @ [(''creation_date'', PSuperDate d), (''zlinks'', PDict [])] \<rparr>"
proof -
  have 0: "Attributes_update sv [] as = Inr as"
    using assms(1,2) by (rule Attributes_update_coerced)
  have 1: "Attributes_setitem sv as ''creation_date'' (today sv)
             = Inr (as @ [(''creation_date'', PSuperDate d)])"
    using assms(5,6) creation_date_is_date_key dict_set_new [OF assms(3)]
    by (simp add: Attributes_setitem_def)
  have z: "''zlinks'' \<notin> set (dict_keys (as @ [(''creation_date'', PSuperDate d)]))"
    using assms(4) by (simp add: dict_keys_def)
  have 2: "Attributes_setitem sv (as @ [(''creation_date'', PSuperDate d)]) ''zlinks'' (PDict [])
             = Inr (as @ [(''creation_date'', PSuperDate d), (''zlinks'', PDict [])])"
    using dict_set_new [OF z] by (simp add: Attributes_setitem_def)
  show ?thesis
    using assms(3) z by (simp add: Zettel_init_def Zettel_attrs_def 0 1 2)
qed

lemma scenario_md_parts:
  "strip scenario_md =
     ''# my title\<newline>\<newline>content\<newline>\<newline><!--- attributes --->\<newline>    ---\<newline>    greeting: hello''"
  "split_attributes md_attr_header
     ''# my title\<newline>\<newline>content\<newline>\<newline><!--- attributes --->\<newline>    ---\<newline>    greeting: hello''
     = (''# my title\<newline>\<newline>content\<newline>\<newline>'', ''\<newline>    ---\<newline>    greeting: hello'')"
  "strip ''\<newline>    ---\<newline>    greeting: hello'' = ''---\<newline>    greeting: hello''"
  "md_title (splitlines ''# my title\<newline>\<newline>content\<newline>\<newline>'')
     = (''my title'', ['''', ''content'', ''''])"
  "md_headings ['''', ''content'', ''''] = [(''_notes'', ''\<newline>content\<newline>'')]"
  unfolding scenario_md_def by code_simp+

lemma scenario_md_encode_parts:
  "requested \<lparr> title = ''my title'', headings = [(''_notes'', ''\<newline>content\<newline>'')], attrs = a \<rparr> None
     = [''_notes'']"
  "heading_getitem \<lparr> title = ''my title'', headings = [(''_notes'', ''\<newline>content\<newline>'')], attrs = a \<rparr>
     ''_notes'' = Inr ''\<newline>content\<newline>''"
  by (simp_all add: requested_def dict_keys_def lower_def lower_char_def heading_getitem_def)

text \<open>
  C2, as the claim states it, fails in its last part.  With PyYAML's output for the
  three attributes of the decoded Zettel, the text that \<open>getMd\<close> returns has a line
  for \<open>creation_date\<close> and a line for \<open>zlinks\<close> that the decoded text does not have.
\<close>

theorem C2_counterexample:
  "ebind (createFromMd fixture scenario_md) (\<lambda>z. getMd fixture z None) =
     Inr ''# my title\<newline>\<newline>content\<newline>\<newline><!--- attributes --->\<newline>    ---\<newline>    creation_date: 2026-11-04, Wed\<newline>    greeting: hello\<newline>    zlinks: {}\<newline>''
   \<and> ebind (createFromMd fixture scenario_md) (\<lambda>z. getMd fixture z None) \<noteq> Inr scenario_md"
  unfolding scenario_md_def by code_simp

text \<open>
  C2, amended.  Decoding the scenario text yields the title \<open>my title\<close>, the single
  heading \<open>_notes\<close> with the body between the title and the marker, and the attributes
  \<open>greeting\<close>, \<open>creation_date\<close> (the \<open>SuperDate\<close> of today) and \<open>zlinks\<close> (empty).
  Encoding that Zettel again yields the same title line, body and marker, followed by
  the indented YAML document of all three attributes, \<open>creation_date\<close> rendered as a
  string, and a final line feed.  The assumptions: the text names no file, the YAML
  loader reads the attribute blob as the mapping it shows, and the date service accepts
  its own value for today.
\<close>

theorem C2_scenario:
  assumes "path_contents sv scenario_md = None"
    and "yaml_safe_load sv ''---\<newline>    greeting: hello'' = Inr (Some [(''greeting'', PStr ''hello'')])"
    and "truthy (today sv)" and "SuperDate sv (today sv) = Some d"
  shows "createFromMd sv scenario_md =
           Inr \<lparr> title = ''my title'', headings = [(''_notes'', ''\<newline>content\<newline>'')],
                 attrs = [(''greeting'', PStr ''hello''), (''creation_date'', PSuperDate d),
                          (''zlinks'', PDict [])] \<rparr>
       \<and> getMd sv
           \<lparr> title = ''my title'', headings = [(''_notes'', ''\<newline>content\<newline>'')],
             attrs = [(''greeting'', PStr ''hello''), (''creation_date'', PSuperDate d),
                      (''zlinks'', PDict [])] \<rparr> None =
           Inr (join ''\<newline>''
                  ([''# my title'', ''\<newline>content\<newline>'', ''<!--- attributes --->'']
                   @ map (\<lambda>x. ''    '' @ x)
                       (splitlines (''---\<newline>'' @ yaml_dump sv
                          [(''greeting'', PStr ''hello''),
                           (''creation_date'',
                            PStr (if is_datetime sv d then strftime sv d ''%Y-%m-%d, %a, %H:%M''
                                  else strftime sv d ''%Y-%m-%d, %a'')),
                           (''zlinks'', PDict [])]))
                   @ [[]]))"
proof -
  let ?hs = "[(''_notes'', ''\<newline>content\<newline>'')]"
  let ?as = "[(''greeting'', PStr ''hello''), (''creation_date'', PSuperDate d), (''zlinks'', PDict [])]"
  let ?z = "\<lparr> title = ''my title'', headings = ?hs, attrs = ?as \<rparr>"
  have g: "\<not> is_date_key ''greeting''"
    by (simp add: date_key_eval)
  have init: "Zettel_init sv ''my title'' ?hs [(''greeting'', PStr ''hello'')] = Inr ?z"
    using Zettel_init_defaults [of sv "[(''greeting'', PStr ''hello'')]" d "''my title''" ?hs]
      assms(3,4) g
    by (simp add: coerced_def stored_ok_def dict_keys_def)
  have ne: "strip scenario_md \<noteq> []"
    by (simp add: scenario_md_parts(1))
  have dec: "createFromMd sv scenario_md = Inr ?z"
    using ne
    by (simp add: createFromMd_def read_text_literal [OF assms(1)] scenario_md_parts assms(2) init)
  have yd: "toYamlDict sv ?as =
              Inr [(''greeting'', PStr ''hello''),
                   (''creation_date'',
                    PStr (if is_datetime sv d then strftime sv d ''%Y-%m-%d, %a, %H:%M''
                          else strftime sv d ''%Y-%m-%d, %a'')),
                   (''zlinks'', PDict [])]"
    using g creation_date_is_date_key by (simp add: toYamlValue_def)
  have str: "Attributes_str sv ?as =
              Inr (''---\<newline>'' @ yaml_dump sv
                     [(''greeting'', PStr ''hello''),
                      (''creation_date'',
                       PStr (if is_datetime sv d then strftime sv d ''%Y-%m-%d, %a, %H:%M''
                             else strftime sv d ''%Y-%m-%d, %a'')),
                      (''zlinks'', PDict [])])"
    unfolding Attributes_str_def yd by simp
  have al: "attr_lines sv ?z =
              Inr (map (\<lambda>x. ''    '' @ x)
                     (splitlines (''---\<newline>'' @ yaml_dump sv
                        [(''greeting'', PStr ''hello''),
                         (''creation_date'',
                          PStr (if is_datetime sv d then strftime sv d ''%Y-%m-%d, %a, %H:%M''
                                else strftime sv d ''%Y-%m-%d, %a'')),
                         (''zlinks'', PDict [])])))"
    unfolding attr_lines_def by (simp add: str)
  have sec: "md_sections ?z (lookup_headings ?z) [''_notes''] = Inr []"
    by simp
  have enc: "getMd sv ?z None =
           Inr (join ''\<newline>''
                  ([''# my title'', ''\<newline>content\<newline>'', ''<!--- attributes --->'']
                   @ map (\<lambda>x. ''    '' @ x)
                       (splitlines (''---\<newline>'' @ yaml_dump sv
                          [(''greeting'', PStr ''hello''),
                           (''creation_date'',
                            PStr (if is_datetime sv d then strftime sv d ''%Y-%m-%d, %a, %H:%M''
                                  else strftime sv d ''%Y-%m-%d, %a'')),
                           (''zlinks'', PDict [])]))
                   @ [[]]))"
    unfolding getMd_def Let_def scenario_md_encode_parts
    by (simp add: sec al md_attr_header_def del: join.simps)
  show ?thesis
    using dec enc by simp
qed

theorem C2_scenario_witness:
  "path_contents fixture scenario_md = None
   \<and> yaml_safe_load fixture ''---\<newline>    greeting: hello'' = Inr (Some [(''greeting'', PStr ''hello'')])
   \<and> truthy (today fixture) \<and> SuperDate fixture (today fixture) = Some ''2026-11-04, Wed''
   \<and> createFromMd fixture scenario_md =
        Inr \<lparr> title = ''my title'', headings = [(''_notes'', ''\<newline>content\<newline>'')],
              attrs = [(''greeting'', PStr ''hello''),
                       (''creation_date'', PSuperDate ''2026-11-04, Wed''),
                       (''zlinks'', PDict [])] \<rparr>
   \<and> getMd fixture
        \<lparr> title = ''my title'', headings = [(''_notes'', ''\<newline>content\<newline>'')],
          attrs = [(''greeting'', PStr ''hello''),
                   (''creation_date'', PSuperDate ''2026-11-04, Wed''),
                   (''zlinks'', PDict [])] \<rparr> None =
        Inr ''# my title\<newline>\<newline>content\<newline>\<newline><!--- attributes --->\<newline>    ---\<newline>    creation_date: 2026-11-04, Wed\<newline>    greeting: hello\<newline>    zlinks: {}\<newline>''"
proof -
  have h1: "path_contents fixture scenario_md = None"
    by simp
  have h2: "yaml_safe_load fixture ''---\<newline>    greeting: hello''
              = Inr (Some [(''greeting'', PStr ''hello'')])"
    unfolding fixture_sel by code_simp
  have h3: "truthy (today fixture)"
    by simp
  have h4: "SuperDate fixture (today fixture) = Some ''2026-11-04, Wed''"
    by simp
  have dump: "splitlines (''---\<newline>'' @ yaml_dump fixture
               [(''greeting'', PStr ''hello''),
                (''creation_date'', PStr ''2026-11-04, Wed''),
                (''zlinks'', PDict [])])
             = [''---'', ''creation_date: 2026-11-04, Wed'', ''greeting: hello'', ''zlinks: {}'']"
    unfolding fixture_sel by code_simp
  show ?thesis
    using C2_scenario [OF h1 h2 h3 h4] h1 h2 h3 h4 by (simp add: dump [simplified])
qed

section \<open>Splitting at the attribute marker\<close>

lemma split_aux_not_Nil: "split_aux sep acc s \<noteq> []"
  by (induction sep acc s rule: split_aux.induct) auto

lemma join_Cons: "ys \<noteq> [] \<Longrightarrow> join sep (x # ys) = x @ sep @ join sep ys"
  by (cases ys) auto

lemma join_split_aux: "join sep (split_aux sep acc s) = rev acc @ s"
proof (induction sep acc s rule: split_aux.induct)
  case (1 sep acc)
  then show ?case by simp
next
  case (2 sep acc c cs)
  show ?case
  proof (cases "sep \<noteq> [] \<and> prefix sep (c # cs)")
    case True
    then obtain r where r: "c # cs = sep @ r"
      by (auto simp: prefix_def)
    have "join sep (split_aux sep acc (c # cs))
            = rev acc @ sep @ join sep (split_aux sep [] (drop (length sep) (c # cs)))"
      using True by (simp add: join_Cons split_aux_not_Nil del: join.simps)
    also have "\<dots> = rev acc @ sep @ drop (length sep) (c # cs)"
      using 2(1) True by simp
    also have "\<dots> = rev acc @ c # cs"
      unfolding r by simp
    finally show ?thesis .
  next
    case False
    then show ?thesis using 2(2) by auto
  qed
qed

lemma split_aux_no_sep:
  "\<not> sublist sep s \<Longrightarrow> split_aux sep acc s = [rev acc @ s]"
proof (induction s arbitrary: acc)
  case Nil
  then show ?case by simp
next
  case (Cons c cs)
  have "\<not> prefix sep (c # cs)" and "\<not> sublist sep cs"
    using Cons.prems by (auto simp: sublist_Cons_right)
  then show ?case
    using Cons.IH [of "c # acc"] by simp
qed

lemma border_freeD:
  assumes "border_free sep" and "sep = b @ t" and "b \<noteq> []" and "t \<noteq> []"
  shows "\<not> prefix t sep"
proof -
  have lb: "Suc 0 \<le> length b"
    using assms(3) by (cases b) simp_all
  have lt: "Suc 0 \<le> length t"
    using assms(4) by (cases t) simp_all
  have "length sep = length b + length t"
    by (simp add: assms(2))
  with lb lt assms(3,4) have "length b \<in> set [1..<length sep]"
    by simp
  then have "\<not> prefix (drop (length b) sep) sep"
    using assms(1) by (simp add: border_free_def list_all_iff)
  then show ?thesis
    by (simp add: assms(2))
qed

lemma last_occurrence:
  assumes "border_free sep" and "sep \<noteq> []"
    and "sep @ s' = b @ sep @ r" and "\<not> sublist sep r"
  shows "(b = [] \<and> s' = r) \<or> (\<exists>b'. b = sep @ b' \<and> s' = b' @ sep @ r)"
proof (cases "b = []")
  case True
  with assms(3) show ?thesis by simp
next
  case False
  show ?thesis
  proof (cases "length sep \<le> length b")
    case True
    from assms(3) have "take (length sep) (sep @ s') = take (length sep) (b @ sep @ r)"
      by simp
    with True have "sep = take (length sep) b"
      by simp
    then have "b = sep @ drop (length sep) b"
      by (metis append_take_drop_id)
    then obtain b' where "b = sep @ b'" ..
    with assms(3) show ?thesis by simp
  next
    case short: False
    from assms(3) have "take (length b) (sep @ s') = b"
      by simp
    with short have b: "b = take (length b) sep"
      by simp
    define t where "t = drop (length b) sep"
    have sep: "sep = b @ t"
      unfolding t_def by (subst b) simp
    have t: "t \<noteq> []"
      using short by (simp add: t_def)
    from assms(3) have "t @ s' = sep @ r"
      by (subst (asm) sep) simp
    moreover have "length t \<le> length sep"
      by (simp add: t_def)
    ultimately have "t = take (length t) sep"
      by (metis append_eq_conv_conj take_append order_refl take_all diff_is_0_eq' take0 append_Nil2)
    then have "prefix t sep"
      by (metis take_is_prefix)
    with border_freeD [OF assms(1) sep False t] show ?thesis by simp
  qed
qed


lemma split_aux_last:
  "border_free sep \<Longrightarrow> sep \<noteq> [] \<Longrightarrow> \<not> sublist sep r \<Longrightarrow>
   rev acc @ s = b @ sep @ r \<Longrightarrow> length acc \<le> length b \<Longrightarrow>
   last (split_aux sep acc s) = r \<and> join sep (butlast (split_aux sep acc s)) = b
     \<and> 2 \<le> length (split_aux sep acc s)"
proof (induction sep acc s arbitrary: b rule: split_aux.induct)
  case (1 sep acc)
  from 1(4) have "length acc = length b + length sep + length r"
    by (metis length_append length_rev append_Nil2 add.assoc)
  with 1(2,5) show ?case
    by (cases sep) simp_all
next
  case (2 sep acc c cs)
  note bf = 2(3) and ne = 2(4) and free = 2(5) and eq = 2(6) and len = 2(7)
  from eq have "take (length acc) (rev acc @ c # cs) = take (length acc) (b @ sep @ r)"
    by simp
  with len have acc: "rev acc = take (length acc) b"
    by simp
  define b1 where "b1 = drop (length acc) b"
  have b: "b = rev acc @ b1"
    unfolding b1_def by (subst acc) simp
  from eq have rest: "c # cs = b1 @ sep @ r"
    unfolding b by simp
  show ?case
  proof (cases "prefix sep (c # cs)")
    case True
    then obtain s' where s': "c # cs = sep @ s'"
      by (auto simp: prefix_def)
    have step: "split_aux sep acc (c # cs) = rev acc # split_aux sep [] s'"
      using True ne by (simp add: s'[symmetric]) (simp add: s')
    from rest s' have "sep @ s' = b1 @ sep @ r"
      by simp
    from last_occurrence [OF bf ne this free]
    show ?thesis
    proof
      assume "b1 = [] \<and> s' = r"
      then show ?thesis
        unfolding step using free by (simp add: split_aux_no_sep b)
    next
      assume "\<exists>b'. b1 = sep @ b' \<and> s' = b' @ sep @ r"
      then obtain b' where b': "b1 = sep @ b'" and s'': "s' = b' @ sep @ r"
        by blast
      have d: "drop (length sep) (c # cs) = s'"
        by (simp add: s')
      have ih: "last (split_aux sep [] s') = r \<and> join sep (butlast (split_aux sep [] s')) = b'
                 \<and> 2 \<le> length (split_aux sep [] s')"
        using "2.IH"(1) [of b'] True ne bf free s'' unfolding d by simp
      define X where "X = split_aux sep [] s'"
      from ih have X: "last X = r" "join sep (butlast X) = b'" "2 \<le> length X"
        by (simp_all add: X_def)
      then have "X \<noteq> []" and "butlast X \<noteq> []"
        by (auto simp: butlast_conv_take)
      then have "last (rev acc # X) = r" and "join sep (butlast (rev acc # X)) = rev acc @ sep @ b'"
        using X by (simp_all add: join_Cons del: join.simps)
      then show ?thesis
        unfolding step X_def [symmetric] using X(3) by (simp add: b b')
    qed
  next
    case False
    have "length acc \<noteq> length b"
    proof
      assume "length acc = length b"
      then have "b1 = []" by (simp add: b1_def)
      with rest have "prefix sep (c # cs)" by simp
      with False show False ..
    qed
    with len have len': "length (c # acc) \<le> length b"
      by simp
    have "rev (c # acc) @ cs = b @ sep @ r"
      using eq by simp
    from "2.IH"(2) [OF _ bf ne free this len'] False
    show ?thesis by simp
  qed
qed

lemma split_attributes_last:
  assumes "border_free sep" and "sep \<noteq> []" and "\<not> sublist sep r"
  shows "split_attributes sep (b @ sep @ r) = (b, r)"
proof -
  have "last (split_aux sep [] (b @ sep @ r)) = r
        \<and> join sep (butlast (split_aux sep [] (b @ sep @ r))) = b
        \<and> 2 \<le> length (split_aux sep [] (b @ sep @ r))"
    using split_aux_last [OF assms, of "[]" "b @ sep @ r" b] by simp
  then show ?thesis
    by (simp add: split_attributes_def split_def Let_def)
qed

lemma split_attributes_absent:
  assumes "\<not> sublist sep s"
  shows "split_attributes sep s = (s, [])"
  by (simp add: split_attributes_def split_def Let_def split_aux_no_sep [OF assms])

lemma md_attr_header_border_free: "border_free md_attr_header"
  unfolding md_attr_header_def by code_simp

lemma rst_attr_header_border_free: "border_free rst_attr_header"
  unfolding rst_attr_header_def by code_simp

lemma md_last_marker:
  "(\<not> contains r md_attr_header \<longrightarrow>
      split_attributes md_attr_header (b @ md_attr_header @ r) = (b, r))
   \<and> (\<not> contains s md_attr_header \<longrightarrow> split_attributes md_attr_header s = (s, []))
   \<and> (path_contents sv text = None \<and> strip text = b @ md_attr_header @ r
        \<and> \<not> contains r md_attr_header \<longrightarrow>
      createFromMd sv text =
        ebind (yaml_safe_load sv (strip r)) (\<lambda>attributes.
          let (t, md') = md_title (splitlines b)
          in Zettel_init sv t (md_headings md') (case attributes of None \<Rightarrow> [] | Some a \<Rightarrow> a)))
   \<and> (path_contents sv text = None \<and> strip text \<noteq> []
        \<and> \<not> contains (strip text) md_attr_header \<and> yaml_safe_load sv [] = Inr None \<longrightarrow>
      createFromMd sv text =
        (let (t, md') = md_title (splitlines (strip text))
         in Zettel_init sv t (md_headings md') []))"
proof (intro conjI impI)
  have ne: "md_attr_header \<noteq> []"
    by (simp add: md_attr_header_def)
  {
    assume "\<not> contains r md_attr_header"
    then show "split_attributes md_attr_header (b @ md_attr_header @ r) = (b, r)"
      using split_attributes_last [OF md_attr_header_border_free ne] by (simp add: contains_def)
  }
  {
    assume "\<not> contains s md_attr_header"
    then show "split_attributes md_attr_header s = (s, [])"
      using split_attributes_absent by (simp add: contains_def)
  }
  {
    assume a: "path_contents sv text = None \<and> strip text = b @ md_attr_header @ r
        \<and> \<not> contains r md_attr_header"
    then have sp: "split_attributes md_attr_header (b @ md_attr_header @ r) = (b, r)"
      using split_attributes_last [OF md_attr_header_border_free ne] by (simp add: contains_def)
    show "createFromMd sv text =
        ebind (yaml_safe_load sv (strip r)) (\<lambda>attributes.
          let (t, md') = md_title (splitlines b)
          in Zettel_init sv t (md_headings md') (case attributes of None \<Rightarrow> [] | Some a \<Rightarrow> a))"
      using a ne by (simp add: createFromMd_def read_text_literal sp)
  }
  {
    assume a: "path_contents sv text = None \<and> strip text \<noteq> []
        \<and> \<not> contains (strip text) md_attr_header \<and> yaml_safe_load sv [] = Inr None"
    then have sp: "split_attributes md_attr_header (strip text) = (strip text, [])"
      using split_attributes_absent by (simp add: contains_def)
    have e: "strip [] = []"
      by (simp add: strip_def lstrip_def rstrip_def)
    show "createFromMd sv text =
        (let (t, md') = md_title (splitlines (strip text))
         in Zettel_init sv t (md_headings md') [])"
      using a by (simp add: createFromMd_def read_text_literal sp e)
  }
qed

lemma rst_last_marker:
  "(\<not> contains r rst_attr_header \<longrightarrow>
      split_attributes rst_attr_header (b @ rst_attr_header @ r) = (b, r))
   \<and> (\<not> contains s rst_attr_header \<longrightarrow> split_attributes rst_attr_header s = (s, []))
   \<and> (path_contents sv text = None \<and> strip text = b @ rst_attr_header @ r
        \<and> \<not> contains r rst_attr_header \<longrightarrow>
      createFromRst sv text =
        ebind (yaml_safe_load sv (strip r)) (\<lambda>attributes.
          let (t, rst') = rst_title (splitlines b)
          in Zettel_init sv t (rst_headings rst') (case attributes of None \<Rightarrow> [] | Some a \<Rightarrow> a)))
   \<and> (path_contents sv text = None \<and> strip text \<noteq> []
        \<and> \<not> contains (strip text) rst_attr_header \<and> yaml_safe_load sv [] = Inr None \<longrightarrow>
      createFromRst sv text =
        (let (t, rst') = rst_title (splitlines (strip text))
         in Zettel_init sv t (rst_headings rst') []))"
proof (intro conjI impI)
  have ne: "rst_attr_header \<noteq> []"
    by (simp add: rst_attr_header_def)
  {
    assume "\<not> contains r rst_attr_header"
    then show "split_attributes rst_attr_header (b @ rst_attr_header @ r) = (b, r)"
      using split_attributes_last [OF rst_attr_header_border_free ne] by (simp add: contains_def)
  }
  {
    assume "\<not> contains s rst_attr_header"
    then show "split_attributes rst_attr_header s = (s, [])"
      using split_attributes_absent by (simp add: contains_def)
  }
  {
    assume a: "path_contents sv text = None \<and> strip text = b @ rst_attr_header @ r
        \<and> \<not> contains r rst_attr_header"
    then have sp: "split_attributes rst_attr_header (b @ rst_attr_header @ r) = (b, r)"
      using split_attributes_last [OF rst_attr_header_border_free ne] by (simp add: contains_def)
    show "createFromRst sv text =
        ebind (yaml_safe_load sv (strip r)) (\<lambda>attributes.
          let (t, rst') = rst_title (splitlines b)
          in Zettel_init sv t (rst_headings rst') (case attributes of None \<Rightarrow> [] | Some a \<Rightarrow> a))"
      using a ne by (simp add: createFromRst_def read_text_literal sp)
  }
  {
    assume a: "path_contents sv text = None \<and> strip text \<noteq> []
        \<and> \<not> contains (strip text) rst_attr_header \<and> yaml_safe_load sv [] = Inr None"
    then have sp: "split_attributes rst_attr_header (strip text) = (strip text, [])"
      using split_attributes_absent by (simp add: contains_def)
    have e: "strip [] = []"
      by (simp add: strip_def lstrip_def rstrip_def)
    show "createFromRst sv text =
        (let (t, rst') = rst_title (splitlines (strip text))
         in Zettel_init sv t (rst_headings rst') [])"
      using a by (simp add: createFromRst_def read_text_literal sp e)
  }
qed

text \<open>
  C7.  In both dialects the decoder splits a document at the last occurrence of the
  attribute marker (\<open><!--- attributes --->\<close> in Markdown, the two lines \<open>.. attributes\<close>
  and \<open>::\<close> in RST): when the stripped text is \<open>b\<close>, the marker, and a rest \<open>r\<close> without the
  marker, then \<open>b\<close>, whatever markers it contains, is the body that is parsed for the
  title and the headings, and \<open>r\<close> alone is the blob handed to the YAML loader.  When the
  marker does not occur, the whole text is the body and the blob is empty, so that with
  a loader that reads the empty document as \<open>None\<close> the Zettel is built from no parsed
  attribute.  The first four conjuncts are Markdown, the last four RST.
\<close>

theorem C7_last_marker:
  "((\<not> contains r md_attr_header \<longrightarrow>
      split_attributes md_attr_header (b @ md_attr_header @ r) = (b, r))
   \<and> (\<not> contains s md_attr_header \<longrightarrow> split_attributes md_attr_header s = (s, []))
   \<and> (path_contents sv text = None \<and> strip text = b @ md_attr_header @ r
        \<and> \<not> contains r md_attr_header \<longrightarrow>
      createFromMd sv text =
        ebind (yaml_safe_load sv (strip r)) (\<lambda>attributes.
          let (t, md') = md_title (splitlines b)
          in Zettel_init sv t (md_headings md') (case attributes of None \<Rightarrow> [] | Some a \<Rightarrow> a)))
   \<and> (path_contents sv text = None \<and> strip text \<noteq> []
        \<and> \<not> contains (strip text) md_attr_header \<and> yaml_safe_load sv [] = Inr None \<longrightarrow>
      createFromMd sv text =
        (let (t, md') = md_title (splitlines (strip text))
         in Zettel_init sv t (md_headings md') [])))
   \<and> ((\<not> contains r rst_attr_header \<longrightarrow>
      split_attributes rst_attr_header (b @ rst_attr_header @ r) = (b, r))
   \<and> (\<not> contains s rst_attr_header \<longrightarrow> split_attributes rst_attr_header s = (s, []))
   \<and> (path_contents sv text = None \<and> strip text = b @ rst_attr_header @ r
        \<and> \<not> contains r rst_attr_header \<longrightarrow>
      createFromRst sv text =
        ebind (yaml_safe_load sv (strip r)) (\<lambda>attributes.
          let (t, rst') = rst_title (splitlines b)
          in Zettel_init sv t (rst_headings rst') (case attributes of None \<Rightarrow> [] | Some a \<Rightarrow> a)))
   \<and> (path_contents sv text = None \<and> strip text \<noteq> []
        \<and> \<not> contains (strip text) rst_attr_header \<and> yaml_safe_load sv [] = Inr None \<longrightarrow>
      createFromRst sv text =
        (let (t, rst') = rst_title (splitlines (strip text))
         in Zettel_init sv t (rst_headings rst') [])))"
  by (rule conjI [OF md_last_marker rst_last_marker])

theorem C7_last_marker_witness:
  "\<not> contains ''\<newline>    ---\<newline>    greeting: hello'' md_attr_header
   \<and> contains ''# t\<newline>body <!--- attributes ---> more\<newline>'' md_attr_header
   \<and> split_attributes md_attr_header
        (''# t\<newline>body <!--- attributes ---> more\<newline>'' @ md_attr_header
           @ ''\<newline>    ---\<newline>    greeting: hello'')
       = (''# t\<newline>body <!--- attributes ---> more\<newline>'', ''\<newline>    ---\<newline>    greeting: hello'')
   \<and> \<not> contains ''# my title\<newline>\<newline>\<newline>content'' md_attr_header
   \<and> split_attributes md_attr_header ''# my title\<newline>\<newline>\<newline>content''
       = (''# my title\<newline>\<newline>\<newline>content'', [])
   \<and> path_contents fixture
        ''# t\<newline>body <!--- attributes ---> more\<newline><!--- attributes --->\<newline>    ---\<newline>    greeting: hello\<newline>''
       = None
   \<and> strip ''# t\<newline>body <!--- attributes ---> more\<newline><!--- attributes --->\<newline>    ---\<newline>    greeting: hello\<newline>''
       = ''# t\<newline>body <!--- attributes ---> more\<newline>'' @ md_attr_header
           @ ''\<newline>    ---\<newline>    greeting: hello''
   \<and> createFromMd fixture
        ''# t\<newline>body <!--- attributes ---> more\<newline><!--- attributes --->\<newline>    ---\<newline>    greeting: hello\<newline>''
       = Inr \<lparr> title = ''t'', headings = [(''_notes'', ''body <!--- attributes ---> more'')],
               attrs = [(''greeting'', PStr ''hello''),
                        (''creation_date'', PSuperDate ''2026-11-04, Wed''),
                        (''zlinks'', PDict [])] \<rparr>
   \<and> path_contents fixture ''# my title\<newline>\<newline>\<newline>content'' = None
   \<and> strip ''# my title\<newline>\<newline>\<newline>content'' \<noteq> []
   \<and> \<not> contains (strip ''# my title\<newline>\<newline>\<newline>content'') md_attr_header
   \<and> yaml_safe_load fixture [] = Inr None
   \<and> createFromMd fixture ''# my title\<newline>\<newline>\<newline>content''
       = Inr \<lparr> title = ''my title'', headings = [(''_notes'', ''\<newline>\<newline>content'')],
               attrs = [(''creation_date'', PSuperDate ''2026-11-04, Wed''),
                        (''zlinks'', PDict [])] \<rparr>
   \<and> \<not> contains ''\<newline>\<newline>    ---\<newline>    greeting: hello'' rst_attr_header
   \<and> contains ''===\<newline> t\<newline>===\<newline>body .. attributes\<newline>:: more\<newline>'' rst_attr_header
   \<and> split_attributes rst_attr_header
        (''===\<newline> t\<newline>===\<newline>body .. attributes\<newline>:: more\<newline>'' @ rst_attr_header
           @ ''\<newline>\<newline>    ---\<newline>    greeting: hello'')
       = (''===\<newline> t\<newline>===\<newline>body .. attributes\<newline>:: more\<newline>'',
          ''\<newline>\<newline>    ---\<newline>    greeting: hello'')
   \<and> \<not> contains ''==========\<newline> my title\<newline>==========\<newline>\<newline>content'' rst_attr_header
   \<and> split_attributes rst_attr_header ''==========\<newline> my title\<newline>==========\<newline>\<newline>content''
       = (''==========\<newline> my title\<newline>==========\<newline>\<newline>content'', [])
   \<and> path_contents fixture
        ''===\<newline> t\<newline>===\<newline>body .. attributes\<newline>:: more\<newline>.. attributes\<newline>::\<newline>\<newline>    ---\<newline>    greeting: hello\<newline>''
       = None
   \<and> strip ''===\<newline> t\<newline>===\<newline>body .. attributes\<newline>:: more\<newline>.. attributes\<newline>::\<newline>\<newline>    ---\<newline>    greeting: hello\<newline>''
       = ''===\<newline> t\<newline>===\<newline>body .. attributes\<newline>:: more\<newline>'' @ rst_attr_header
           @ ''\<newline>\<newline>    ---\<newline>    greeting: hello''
   \<and> createFromRst fixture
        ''===\<newline> t\<newline>===\<newline>body .. attributes\<newline>:: more\<newline>.. attributes\<newline>::\<newline>\<newline>    ---\<newline>    greeting: hello\<newline>''
       = Inr \<lparr> title = ''t'', headings = [(''_notes'', ''body .. attributes\<newline>:: more'')],
               attrs = [(''greeting'', PStr ''hello''),
                        (''creation_date'', PSuperDate ''2026-11-04, Wed''),
                        (''zlinks'', PDict [])] \<rparr>
   \<and> path_contents fixture ''==========\<newline> my title\<newline>==========\<newline>\<newline>content'' = None
   \<and> strip ''==========\<newline> my title\<newline>==========\<newline>\<newline>content'' \<noteq> []
   \<and> \<not> contains (strip ''==========\<newline> my title\<newline>==========\<newline>\<newline>content'') rst_attr_header
   \<and> createFromRst fixture ''==========\<newline> my title\<newline>==========\<newline>\<newline>content''
       = Inr \<lparr> title = ''my title'', headings = [(''_notes'', ''\<newline>content'')],
               attrs = [(''creation_date'', PSuperDate ''2026-11-04, Wed''),
                        (''zlinks'', PDict [])] \<rparr>"
proof -
  let ?b = "''# t\<newline>body <!--- attributes ---> more\<newline>''"
  let ?r = "''\<newline>    ---\<newline>    greeting: hello''"
  let ?t1 = "''# t\<newline>body <!--- attributes ---> more\<newline><!--- attributes --->\<newline>    ---\<newline>    greeting: hello\<newline>''"
  let ?t2 = "''# my title\<newline>\<newline>\<newline>content''"
  let ?rb = "''===\<newline> t\<newline>===\<newline>body .. attributes\<newline>:: more\<newline>''"
  let ?rr = "''\<newline>\<newline>    ---\<newline>    greeting: hello''"
  let ?rt1 = "''===\<newline> t\<newline>===\<newline>body .. attributes\<newline>:: more\<newline>.. attributes\<newline>::\<newline>\<newline>    ---\<newline>    greeting: hello\<newline>''"
  let ?rt2 = "''==========\<newline> my title\<newline>==========\<newline>\<newline>content''"
  have h1: "\<not> contains ?r md_attr_header" and h1': "contains ?b md_attr_header"
    and h2: "\<not> contains ?t2 md_attr_header"
    and h3: "strip ?t1 = ?b @ md_attr_header @ ?r"
    and h4: "strip ?t2 \<noteq> []" "\<not> contains (strip ?t2) md_attr_header"
    unfolding contains_def md_attr_header_def by code_simp+
  have k1: "\<not> contains ?rr rst_attr_header" and k1': "contains ?rb rst_attr_header"
    and k2: "\<not> contains ?rt2 rst_attr_header"
    and k3: "strip ?rt1 = ?rb @ rst_attr_header @ ?rr"
    and k4: "strip ?rt2 \<noteq> []" "\<not> contains (strip ?rt2) rst_attr_header"
    unfolding contains_def rst_attr_header_def by code_simp+
  have p1: "path_contents fixture ?t1 = None" and p2: "path_contents fixture ?t2 = None"
    and q1: "path_contents fixture ?rt1 = None" and q2: "path_contents fixture ?rt2 = None"
    by simp_all
  have y: "yaml_safe_load fixture [] = Inr None"
    unfolding fixture_sel by code_simp
  have r1: "ebind (yaml_safe_load fixture (strip ?r)) (\<lambda>attributes.
              let (t, md') = md_title (splitlines ?b)
              in Zettel_init fixture t (md_headings md')
                   (case attributes of None \<Rightarrow> [] | Some a \<Rightarrow> a))
            = Inr \<lparr> title = ''t'', headings = [(''_notes'', ''body <!--- attributes ---> more'')],
               attrs = [(''greeting'', PStr ''hello''),
                        (''creation_date'', PSuperDate ''2026-11-04, Wed''),
                        (''zlinks'', PDict [])] \<rparr>"
    by code_simp
  have r2: "(let (t, md') = md_title (splitlines (strip ?t2))
             in Zettel_init fixture t (md_headings md') [])
            = Inr \<lparr> title = ''my title'', headings = [(''_notes'', ''\<newline>\<newline>content'')],
               attrs = [(''creation_date'', PSuperDate ''2026-11-04, Wed''),
                        (''zlinks'', PDict [])] \<rparr>"
    by code_simp
  have s1: "ebind (yaml_safe_load fixture (strip ?rr)) (\<lambda>attributes.
              let (t, rst') = rst_title (splitlines ?rb)
              in Zettel_init fixture t (rst_headings rst')
                   (case attributes of None \<Rightarrow> [] | Some a \<Rightarrow> a))
            = Inr \<lparr> title = ''t'', headings = [(''_notes'', ''body .. attributes\<newline>:: more'')],
               attrs = [(''greeting'', PStr ''hello''),
                        (''creation_date'', PSuperDate ''2026-11-04, Wed''),
                        (''zlinks'', PDict [])] \<rparr>"
    by code_simp
  have s2: "(let (t, rst') = rst_title (splitlines (strip ?rt2))
             in Zettel_init fixture t (rst_headings rst') [])
            = Inr \<lparr> title = ''my title'', headings = [(''_notes'', ''\<newline>content'')],
               attrs = [(''creation_date'', PSuperDate ''2026-11-04, Wed''),
                        (''zlinks'', PDict [])] \<rparr>"
    by code_simp
  note thm1 = C7_last_marker [of ?r ?b ?t2 fixture ?t1]
  note thm2 = C7_last_marker [of ?r ?b ?t2 fixture ?t2]
  note thm3 = C7_last_marker [of ?rr ?rb ?rt2 fixture ?rt1]
  note thm4 = C7_last_marker [of ?rr ?rb ?rt2 fixture ?rt2]
  have c1: "split_attributes md_attr_header (?b @ md_attr_header @ ?r) = (?b, ?r)"
    using thm1 h1 by blast
  have c2: "split_attributes md_attr_header ?t2 = (?t2, [])"
    using thm1 h2 by blast
  have c3: "createFromMd fixture ?t1
       = Inr \<lparr> title = ''t'', headings = [(''_notes'', ''body <!--- attributes ---> more'')],
               attrs = [(''greeting'', PStr ''hello''),
                        (''creation_date'', PSuperDate ''2026-11-04, Wed''),
                        (''zlinks'', PDict [])] \<rparr>"
    using thm1 p1 h3 h1 unfolding r1 by blast
  have c4: "createFromMd fixture ?t2
       = Inr \<lparr> title = ''my title'', headings = [(''_notes'', ''\<newline>\<newline>content'')],
               attrs = [(''creation_date'', PSuperDate ''2026-11-04, Wed''),
                        (''zlinks'', PDict [])] \<rparr>"
    using thm2 p2 h4 y unfolding r2 by blast
  have d1: "split_attributes rst_attr_header (?rb @ rst_attr_header @ ?rr) = (?rb, ?rr)"
    using thm3 k1 by blast
  have d2: "split_attributes rst_attr_header ?rt2 = (?rt2, [])"
    using thm3 k2 by blast
  have d3: "createFromRst fixture ?rt1
       = Inr \<lparr> title = ''t'', headings = [(''_notes'', ''body .. attributes\<newline>:: more'')],
               attrs = [(''greeting'', PStr ''hello''),
                        (''creation_date'', PSuperDate ''2026-11-04, Wed''),
                        (''zlinks'', PDict [])] \<rparr>"
    using thm3 q1 k3 k1 unfolding s1 by blast
  have d4: "createFromRst fixture ?rt2
       = Inr \<lparr> title = ''my title'', headings = [(''_notes'', ''\<newline>content'')],
               attrs = [(''creation_date'', PSuperDate ''2026-11-04, Wed''),
                        (''zlinks'', PDict [])] \<rparr>"
    using thm4 q2 k4 y unfolding s2 by blast
  show ?thesis
    using h1 h1' h2 h3 h4 p1 p2 y c1 c2 c3 c4 k1 k1' k2 k3 k4 q1 q2 d1 d2 d3 d4 by blast
qed

section \<open>Lines and white space\<close>

lemma join_sep_tail: "join sep (m # qs) = m @ concat (map (\<lambda>q. sep @ q) qs)"
  by (induction qs arbitrary: m) (simp_all add: join_Cons del: join.simps(3))

lemma join_parts:
  "join sep (ps @ m # qs) = concat (map (\<lambda>p. p @ sep) ps) @ m @ concat (map (\<lambda>q. sep @ q) qs)"
proof (induction ps)
  case Nil
  then show ?case by (simp add: join_sep_tail)
next
  case (Cons p ps)
  have "join sep ((p # ps) @ m # qs) = p @ sep @ join sep (ps @ m # qs)"
    by (simp add: join_Cons del: join.simps(3))
  then show ?case by (simp add: Cons.IH)
qed

lemma lstrip_id: "s = [] \<or> \<not> isspace (hd s) \<Longrightarrow> lstrip s = s"
  by (cases s) (simp_all add: lstrip_def)

lemma rstrip_append: "\<not> isspace c \<Longrightarrow> rstrip (xs @ c # ys) = xs @ c # rstrip ys"
  by (simp add: rstrip_def dropWhile_append)

lemma rstrip_prefix: "\<exists>w. s = rstrip s @ w"
proof -
  have "rev s = takeWhile isspace (rev s) @ dropWhile isspace (rev s)"
    by simp
  then have "s = rev (dropWhile isspace (rev s)) @ rev (takeWhile isspace (rev s))"
    by (metis rev_append rev_rev_ident)
  then show ?thesis
    unfolding rstrip_def by blast
qed

lemma sublist_rstrip: "sublist m (rstrip s) \<Longrightarrow> sublist m s"
proof -
  assume a: "sublist m (rstrip s)"
  obtain w where w: "s = rstrip s @ w"
    using rstrip_prefix by blast
  from a obtain p q where "rstrip s = p @ m @ q"
    by (auto simp: sublist_def)
  with w have "s = p @ m @ (q @ w)"
    by simp
  then show ?thesis
    unfolding sublist_def by blast
qed

lemma strip_rstrip: "strip (rstrip s) = strip s"
  by (simp add: strip_def rstrip_def)

lemma islinebreak_isspace: "islinebreak c \<Longrightarrow> isspace c"
  by (auto simp: islinebreak_def isspace_def)

lemma no_linebreak_only_nl: "no_linebreak s \<Longrightarrow> only_nl s"
  by (simp add: no_linebreak_def only_nl_def list_all_iff)

lemma split_LF_Cons:
  "split_aux [CHR 0x0A] acc (c # cs) =
     (if c = CHR 0x0A then rev acc # split_aux [CHR 0x0A] [] cs
      else split_aux [CHR 0x0A] (c # acc) cs)"
  by simp

lemma splitlines_aux_line:
  "only_nl p \<Longrightarrow>
   splitlines_aux acc (p @ CHR 0x0A # rest) = split_aux [CHR 0x0A] acc p @ splitlines_aux [] rest"
proof (induction p arbitrary: acc)
  case Nil
  then show ?case
    by (cases rest) (simp_all add: islinebreak_def)
next
  case (Cons c p)
  from Cons.prems have c: "\<not> islinebreak c \<or> c = CHR 0x0A" and p: "only_nl p"
    by (simp_all add: only_nl_def)
  obtain d ds where tl: "p @ CHR 0x0A # rest = d # ds"
    by (cases "p @ CHR 0x0A # rest") simp_all
  have cr: "c \<noteq> CHR 0x0D"
    using c by (auto simp: islinebreak_def)
  show ?case
  proof (cases "c = CHR 0x0A")
    case True
    have "splitlines_aux acc ((c # p) @ CHR 0x0A # rest) = rev acc # splitlines_aux [] (p @ CHR 0x0A # rest)"
      using True by (simp add: tl islinebreak_def)
    then show ?thesis
      using True Cons.IH [OF p, of "[]"] by simp
  next
    case False
    with c have nb: "\<not> islinebreak c" by simp
    have "splitlines_aux acc ((c # p) @ CHR 0x0A # rest) = splitlines_aux (c # acc) (p @ CHR 0x0A # rest)"
      using nb cr by (simp add: tl)
    then show ?thesis
      using False Cons.IH [OF p, of "c # acc"] by simp
  qed
qed

lemma splitlines_parts:
  "list_all only_nl ps \<Longrightarrow>
   splitlines (concat (map (\<lambda>p. p @ [CHR 0x0A]) ps)) = concat (map (\<lambda>p. split p [CHR 0x0A]) ps)"
proof (induction ps)
  case Nil
  then show ?case by (simp add: splitlines_def)
next
  case (Cons p ps)
  then have p: "only_nl p" and ps: "list_all only_nl ps"
    by simp_all
  have "splitlines (concat (map (\<lambda>p. p @ [CHR 0x0A]) (p # ps)))
          = splitlines_aux [] (p @ CHR 0x0A # concat (map (\<lambda>p. p @ [CHR 0x0A]) ps))"
    by (simp add: splitlines_def)
  also have "\<dots> = split p [CHR 0x0A] @ splitlines (concat (map (\<lambda>p. p @ [CHR 0x0A]) ps))"
    by (simp add: splitlines_aux_line [OF p] split_def splitlines_def)
  finally show ?case
    using Cons.IH [OF ps] by simp
qed

lemma split_no_linebreak: "no_linebreak k \<Longrightarrow> split k [CHR 0x0A] = [k]"
proof -
  assume "no_linebreak k"
  then have "CHR 0x0A \<notin> set k"
    by (auto simp: no_linebreak_def list_all_iff islinebreak_def)
  then have "\<not> sublist [CHR 0x0A] k"
    by (auto simp: sublist_def)
  then show ?thesis
    by (simp add: split_def split_aux_no_sep)
qed

lemma join_split: "join sep (split s sep) = s"
  by (simp add: split_def join_split_aux)

lemma split_not_Nil: "split s sep \<noteq> []"
  by (simp add: split_def split_aux_not_Nil)

section \<open>The heading scan of the Markdown decoder\<close>

lemma zip_tl_nth: "zip xs (tl xs) = map (\<lambda>i. (xs ! i, xs ! (i + 1))) [0..<length xs - 1]"
  by (rule nth_equalityI) (simp_all add: nth_tl)

lemma filter_upt_Suc:
  "[x \<leftarrow> [0..<Suc n]. P x] = (if P 0 then [0] else []) @ map Suc [x \<leftarrow> [0..<n]. P (Suc x)]"
proof -
  have "[0..<Suc n] = 0 # map Suc [0..<n]"
    by (simp add: upt_conv_Cons map_Suc_upt del: upt_Suc)
  then show ?thesis
    by (simp add: filter_map comp_def del: upt_Suc)
qed

lemma md_heading_pts_Cons:
  "md_heading_pts (l # ls) = (if is_md_heading l then [0] else []) @ map Suc (md_heading_pts ls)"
  unfolding md_heading_pts_def by (simp add: filter_upt_Suc del: upt_Suc)

lemma md_heading_pts_not_Nil: "md_heading_pts md \<noteq> []"
  by (simp add: md_heading_pts_def)

lemma hd_md_heading_pts:
  "hd (md_heading_pts md) = length (takeWhile (\<lambda>x. \<not> is_md_heading x) md)"
proof (induction md)
  case Nil
  then show ?case by (simp add: md_heading_pts_def)
next
  case (Cons l ls)
  then show ?case
    using md_heading_pts_not_Nil [of ls]
    by (simp add: md_heading_pts_Cons hd_map)
qed

lemma take_hd_md_heading_pts:
  "take (hd (md_heading_pts md)) md = takeWhile (\<lambda>x. \<not> is_md_heading x) md"
  by (simp add: hd_md_heading_pts takeWhile_eq_take [symmetric])

lemma md_section_Suc: "md_section (l # ls) (Suc a, Suc b) = md_section ls (a, b)"
  by (simp add: md_section_def slice_def)

lemma zip_tl_map: "zip (map f xs) (tl (map f xs)) = map (\<lambda>(a, b). (f a, f b)) (zip xs (tl xs))"
  by (simp add: zip_map_map map_tl [symmetric])

lemma md_segments_pts:
  "map (md_section md) (zip (md_heading_pts md) (tl (md_heading_pts md))) = md_segments md"
proof (induction md)
  case Nil
  then show ?case by (simp add: md_heading_pts_def)
next
  case (Cons l ls)
  let ?p = "md_heading_pts ls"
  have shifted: "map (md_section (l # ls)) (zip (map Suc ?p) (tl (map Suc ?p))) = md_segments ls"
    unfolding zip_tl_map using Cons.IH
    by (simp add: md_section_Suc case_prod_unfold comp_def)
  show ?case
  proof (cases "is_md_heading l")
    case False
    then show ?thesis
      using shifted by (simp add: md_heading_pts_Cons)
  next
    case True
    obtain h t where p: "?p = h # t"
      using md_heading_pts_not_Nil [of ls] by (cases ?p) auto
    have h: "take h ls = takeWhile (\<lambda>x. \<not> is_md_heading x) ls"
      using take_hd_md_heading_pts [of ls] by (simp add: p)
    have first: "md_section (l # ls) (0, Suc h)
                   = (md_heading_name l, join [CHR 0x0A] (takeWhile (\<lambda>x. \<not> is_md_heading x) ls))"
      by (simp add: md_section_def slice_def h)
    have "map (md_section (l # ls)) (zip (md_heading_pts (l # ls)) (tl (md_heading_pts (l # ls))))
            = md_section (l # ls) (0, Suc h)
              # map (md_section (l # ls)) (zip (map Suc ?p) (tl (map Suc ?p)))"
      using True by (simp add: md_heading_pts_Cons p)
    then show ?thesis
      using True first shifted by simp
  qed
qed

lemma md_headings_scan:
  "md_headings md =
     fold (\<lambda>(k, b) hs. dict_set k b hs) (md_segments md)
       (let notes = join [CHR 0x0A] (takeWhile (\<lambda>x. \<not> is_md_heading x) md)
        in if notes = [] then [] else [(''_notes'', notes)])"
proof -
  let ?p = "md_heading_pts md"
  have loop: "\<And>hs0. fold (\<lambda>ptr hs.
                 dict_set (md_heading_name (md ! (?p ! ptr)))
                   (join [CHR 0x0A] (slice md (?p ! ptr + 1) (?p ! (ptr + 1)))) hs)
           [0..<length ?p - 1] hs0
        = fold (\<lambda>(k, b) hs. dict_set k b hs) (map (md_section md) (zip ?p (tl ?p))) hs0"
    unfolding zip_tl_nth by (simp add: fold_map comp_def md_section_def)
  show ?thesis
    unfolding md_headings_def Let_def loop md_segments_pts
    by (simp add: slice_def take_hd_md_heading_pts)
qed

section \<open>Reading back the sections of a Markdown text\<close>

lemma is_md_heading_line: "is_md_heading (''## '' @ k)"
  by (simp add: is_md_heading_def lstrip_def startswith_def isspace_def)

lemma md_heading_name_line:
  assumes "md_name_ok k"
  shows "md_heading_name (''## '' @ k) = k"
proof -
  have free: "\<not> sublist ''## '' k" and st: "strip k = k"
    using assms by (simp_all add: md_name_ok_def contains_def)
  have "split (''## '' @ k) ''## '' = [[], k]"
    using split_aux_no_sep [OF free, of "[]"] by (simp add: split_def)
  then show ?thesis
    by (simp add: md_heading_name_def st)
qed

lemma takeWhile_block:
  assumes "list_all (\<lambda>x. \<not> P x) ns" and "ws = [] \<or> P (hd ws)"
  shows "takeWhile (\<lambda>x. \<not> P x) (ns @ ws) = ns"
proof -
  have "takeWhile (\<lambda>x. \<not> P x) ws = []"
    using assms(2) by (cases ws) auto
  then show ?thesis
    using assms(1) by (simp add: takeWhile_append2 list_all_iff)
qed

lemma md_sections_head:
  "concat (map md_section_lines xs) = [] \<or> is_md_heading (hd (concat (map md_section_lines xs)))"
  by (cases xs) (simp_all add: md_section_lines_def is_md_heading_line del: append.simps)

lemma md_segments_skip:
  "list_all (\<lambda>x. \<not> is_md_heading x) ns \<Longrightarrow> md_segments (ns @ ws) = md_segments ws"
  by (induction ns) simp_all

lemma md_segments_sections:
  assumes "list_all (\<lambda>p. md_name_ok (fst p) \<and> md_body_ok (snd p)) xs"
  shows "md_segments (concat (map md_section_lines xs)) = xs"
  using assms
proof (induction xs)
  case Nil
  then show ?case by simp
next
  case (Cons p xs)
  obtain k b where p: "p = (k, b)" by (cases p)
  let ?w = "concat (map md_section_lines xs)"
  from Cons.prems have k: "md_name_ok k" and b: "md_body_ok b"
    and xs: "list_all (\<lambda>p. md_name_ok (fst p) \<and> md_body_ok (snd p)) xs"
    by (simp_all add: p)
  from b have lines: "list_all (\<lambda>x. \<not> is_md_heading x) (split b [CHR 0x0A])"
    by (simp add: md_body_ok_def)
  have tw: "takeWhile (\<lambda>x. \<not> is_md_heading x) (split b [CHR 0x0A] @ ?w) = split b [CHR 0x0A]"
    using lines md_sections_head [of xs] by (rule takeWhile_block)
  have "md_segments (concat (map md_section_lines (p # xs)))
          = md_segments ((''## '' @ k) # split b [CHR 0x0A] @ ?w)"
    by (simp add: p md_section_lines_def)
  also have "\<dots> = (k, b) # md_segments (split b [CHR 0x0A] @ ?w)"
    using is_md_heading_line [of k] md_heading_name_line [OF k]
    by (simp add: tw join_split del: append.simps)
  also have "\<dots> = (k, b) # xs"
    using md_segments_skip [OF lines] Cons.IH [OF xs] by simp
  finally show ?case by (simp add: p)
qed

lemma fold_dict_set_new:
  assumes "distinct (map fst xs)" and "set (map fst xs) \<inter> set (dict_keys hs0) = {}"
  shows "fold (\<lambda>(k, b) hs. dict_set k b hs) xs hs0 = hs0 @ xs"
  using assms
proof (induction xs arbitrary: hs0)
  case Nil
  then show ?case by simp
next
  case (Cons p xs)
  obtain k b where p: "p = (k, b)" by (cases p)
  have new: "k \<notin> set (dict_keys hs0)"
    using Cons.prems(2) by (simp add: p)
  have d: "distinct (map fst xs)"
    using Cons.prems(1) by simp
  have disj: "set (map fst xs) \<inter> set (dict_keys (hs0 @ [(k, b)])) = {}"
    using Cons.prems by (auto simp: p dict_keys_def)
  show ?case
    using Cons.IH [OF d disj] by (simp add: p dict_set_new [OF new])
qed

lemma md_headings_sections:
  assumes ns: "list_all (\<lambda>x. \<not> is_md_heading x) ns"
    and xs: "list_all (\<lambda>p. md_name_ok (fst p) \<and> md_body_ok (snd p)) xs"
    and d: "distinct (map fst xs)" and n: "''_notes'' \<notin> set (map fst xs)"
  shows "md_headings (ns @ concat (map md_section_lines xs)) =
           (if join [CHR 0x0A] ns = [] then [] else [(''_notes'', join [CHR 0x0A] ns)]) @ xs"
proof -
  let ?w = "concat (map md_section_lines xs)"
  have tw: "takeWhile (\<lambda>x. \<not> is_md_heading x) (ns @ ?w) = ns"
    using ns md_sections_head [of xs] by (rule takeWhile_block)
  have seg: "md_segments (ns @ ?w) = xs"
    using md_segments_skip [OF ns] md_segments_sections [OF xs] by simp
  let ?hs0 = "if join [CHR 0x0A] ns = [] then [] else [(''_notes'', join [CHR 0x0A] ns)]"
  have disj: "set (map fst xs) \<inter> set (dict_keys ?hs0) = {}"
    using n by (simp add: dict_keys_def)
  show ?thesis
    unfolding md_headings_scan tw seg Let_def
    by (rule fold_dict_set_new [OF d disj])
qed

section \<open>Reading back the title of a Markdown text\<close>

lemma split_ws_aux_words:
  "\<forall>c\<in>set acc. \<not> isspace c \<Longrightarrow>
   \<forall>w\<in>set (split_ws_aux acc s). w \<noteq> [] \<and> (\<forall>c\<in>set w. \<not> isspace c)"
proof (induction s arbitrary: acc)
  case Nil
  then show ?case by simp
next
  case (Cons c s)
  show ?case
  proof (cases "isspace c")
    case True
    have "\<forall>w\<in>set (split_ws_aux [] s). w \<noteq> [] \<and> (\<forall>c\<in>set w. \<not> isspace c)"
      by (rule Cons.IH) simp
    then show ?thesis
      using True Cons.prems by simp
  next
    case False
    have "\<forall>w\<in>set (split_ws_aux (c # acc) s). w \<noteq> [] \<and> (\<forall>c\<in>set w. \<not> isspace c)"
      by (rule Cons.IH) (use False Cons.prems in simp)
    then show ?thesis
      using False by simp
  qed
qed

lemma join_words:
  assumes "ws \<noteq> []" and "\<forall>w\<in>set ws. w \<noteq> [] \<and> (\<forall>c\<in>set w. \<not> isspace c)"
  shows "join '' '' ws \<noteq> [] \<and> \<not> isspace (last (join '' '' ws))
         \<and> (\<forall>c\<in>set (join '' '' ws). \<not> islinebreak c)"
  using assms
proof (induction ws)
  case Nil
  then show ?case by simp
next
  case (Cons x ws)
  from Cons.prems(2) have x: "x \<noteq> []" "\<forall>c\<in>set x. \<not> isspace c"
    by simp_all
  then have xl: "\<not> isspace (last x)" "\<forall>c\<in>set x. \<not> islinebreak c"
    using islinebreak_isspace by auto
  show ?case
  proof (cases "ws = []")
    case True
    then show ?thesis using x xl by simp
  next
    case False
    have ih: "join '' '' ws \<noteq> [] \<and> \<not> isspace (last (join '' '' ws))
         \<and> (\<forall>c\<in>set (join '' '' ws). \<not> islinebreak c)"
      using Cons.IH [OF False] Cons.prems(2) by simp
    have j: "join '' '' (x # ws) = x @ '' '' @ join '' '' ws"
      using False by (rule join_Cons)
    have sp: "\<not> islinebreak CHR '' ''"
      by (simp add: islinebreak_def)
    show ?thesis
      unfolding j using ih xl(2) sp by auto
  qed
qed

lemma md_title_ok_facts:
  assumes "md_title_ok t" and "t \<noteq> []"
  shows "\<not> isspace (last t)" and "no_linebreak t"
proof -
  from assms have eq: "join '' '' (split_ws t) = t"
    by (simp add: md_title_ok_def)
  with assms(2) have ne: "split_ws t \<noteq> []"
    by auto
  have w: "\<forall>w\<in>set (split_ws t). w \<noteq> [] \<and> (\<forall>c\<in>set w. \<not> isspace c)"
    unfolding split_ws_def by (rule split_ws_aux_words) simp
  from join_words [OF ne w] show "\<not> isspace (last t)" and "no_linebreak t"
    unfolding eq by (simp_all add: no_linebreak_def list_all_iff)
qed

lemma strip_keeps:
  assumes "s \<noteq> []" and "\<not> isspace (hd s)" and "\<not> isspace (last s)"
  shows "strip s = s"
proof -
  have "s = butlast s @ [last s]"
    using assms(1) by simp
  then have "rstrip s = butlast s @ last s # rstrip []"
    using rstrip_append [OF assms(3), of "butlast s" "[]"] by simp
  then have "rstrip s = s"
    using assms(1) by (simp add: rstrip_def)
  then show ?thesis
    using assms(1,2) by (simp add: strip_def lstrip_id)
qed

lemma md_title_line:
  assumes "md_title_ok t" and "t \<noteq> []"
  shows "md_title ((''# '' @ t) # rest) = (t, rest)"
proof -
  have l: "\<not> isspace (last (''# '' @ t))"
    using md_title_ok_facts(1) [OF assms] assms(2) by simp
  have st: "strip (''# '' @ t) = ''# '' @ t"
    by (rule strip_keeps) (use l in \<open>simp_all add: isspace_def\<close>)
  then have pre: "startswith (strip (''# '' @ t)) ''# ''"
    by (simp add: startswith_def)
  have ws: "drop 1 (split_ws (''# '' @ t)) = split_ws t"
    by (simp add: split_ws_def isspace_def)
  have "join '' '' (split_ws t) = t"
    using assms by (simp add: md_title_ok_def)
  then show ?thesis
    unfolding md_title_def list.case using pre by (simp only: ws if_True)
qed

lemma md_title_none:
  assumes "ls = [] \<or> \<not> startswith (strip (hd ls)) ''# ''"
  shows "md_title ls = ([], ls)"
  using assms by (cases ls) (simp_all add: md_title_def)

lemma md_heading_line_no_title: "\<not> startswith (strip (''## '' @ k)) ''# ''"
proof -
  have "rstrip (''#'' @ CHR ''#'' # (CHR '' '' # k)) = ''#'' @ CHR ''#'' # rstrip (CHR '' '' # k)"
    by (rule rstrip_append) (simp add: isspace_def)
  then have "strip (''## '' @ k) = ''##'' @ rstrip (CHR '' '' # k)"
    by (simp add: strip_def lstrip_def isspace_def)
  then show ?thesis
    by (simp add: startswith_def)
qed

section \<open>The text of a well-formed Zettel\<close>

lemma headings_split:
  "headings z = (case notes_of (headings z) of None \<Rightarrow> [] | Some n \<Rightarrow> [(''_notes'', n)])
                @ named_of (headings z)"
  by (cases "headings z") (auto simp: notes_of_def named_of_def)

lemma lower_notes: "lower ''_notes'' = ''_notes''"
  by (simp add: lower_def lower_char_def)

lemma lookup_fold:
  "map_of (fold (\<lambda>k acc. dict_set (lower k) k acc) ks acc0) h =
     (case map_of (map (\<lambda>k. (lower k, k)) (rev ks)) h of
        Some k \<Rightarrow> Some k
      | None \<Rightarrow> map_of acc0 h)"
proof (induction ks arbitrary: acc0)
  case Nil
  then show ?case by simp
next
  case (Cons k ks)
  show ?case
    by (simp add: Cons.IH map_of_dict_set_at map_add_def split: option.splits)
qed

lemma lookup_headings_key:
  assumes "distinct (map lower (dict_keys (headings z)))" and "k \<in> set (dict_keys (headings z))"
  shows "map_of (lookup_headings z) (lower k) = Some k"
proof -
  let ?ps = "map (\<lambda>k. (lower k, k)) (rev (dict_keys (headings z)))"
  have "distinct (map fst ?ps)"
    using assms(1) by (simp add: comp_def rev_map [symmetric])
  moreover have "(lower k, k) \<in> set ?ps"
    using assms(2) by auto
  ultimately have "map_of ?ps (lower k) = Some k"
    by (rule map_of_is_SomeI)
  then show ?thesis
    by (simp add: lookup_headings_def lookup_fold)
qed

lemma heading_getitem_entry:
  assumes "distinct (dict_keys (headings z))" and "(k, b) \<in> set (headings z)"
  shows "heading_getitem z k = Inr b"
proof -
  have "map_of (headings z) k = Some b"
    using assms by (simp add: dict_keys_def)
  then show ?thesis
    by (simp add: heading_getitem_def)
qed

lemma md_sections_named:
  assumes "\<forall>p\<in>set xs. lower (fst p) \<noteq> ''_notes'' \<and> map_of look (lower (fst p)) = Some (fst p)
             \<and> heading_getitem z (fst p) = Inr (snd p)"
  shows "md_sections z look (map (\<lambda>p. lower (fst p)) xs)
           = Inr (concat (map (\<lambda>p. [''## '' @ fst p, snd p]) xs))"
  using assms by (induction xs) simp_all

lemma rst_sections_named:
  assumes "\<forall>p\<in>set xs. lower (fst p) \<noteq> ''_notes'' \<and> map_of look (lower (fst p)) = Some (fst p)
             \<and> heading_getitem z (fst p) = Inr (snd p)"
  shows "rst_sections z look (map (\<lambda>p. lower (fst p)) xs)
           = Inr (concat (map (\<lambda>p. [fst p, replicate (length (fst p)) CHR ''='', snd p]) xs))"
  using assms by (induction xs) simp_all

text \<open>What both encoders need to know about the headings of a well-formed Zettel.\<close>

lemma wf_headings_facts:
  assumes d: "distinct (map (\<lambda>p. lower (fst p)) (named_of (headings z)))"
    and n: "list_all (\<lambda>p. lower (fst p) \<noteq> ''_notes'') (named_of (headings z))"
  shows "distinct (map lower (dict_keys (headings z)))"
    and "distinct (dict_keys (headings z))"
    and "requested z None =
           (case notes_of (headings z) of None \<Rightarrow> [] | Some n \<Rightarrow> [''_notes''])
           @ map (\<lambda>p. lower (fst p)) (named_of (headings z))"
    and "''_notes'' \<notin> set (map (\<lambda>p. lower (fst p)) (named_of (headings z)))"
    and "''_notes'' \<notin> set (map fst (named_of (headings z)))"
proof -
  let ?xs = "named_of (headings z)"
  show nl: "''_notes'' \<notin> set (map (\<lambda>p. lower (fst p)) ?xs)"
    using n by (auto simp: list_all_iff)
  then show "''_notes'' \<notin> set (map fst ?xs)"
    using lower_notes by force
  have keys: "dict_keys (headings z)
                = (case notes_of (headings z) of None \<Rightarrow> [] | Some n \<Rightarrow> [''_notes'']) @ map fst ?xs"
    by (subst headings_split) (simp add: dict_keys_def split: option.splits)
  show dl: "distinct (map lower (dict_keys (headings z)))"
    unfolding keys using d nl by (simp add: comp_def lower_notes split: option.splits)
  then show "distinct (dict_keys (headings z))"
    by (simp add: distinct_map)
  show "requested z None =
           (case notes_of (headings z) of None \<Rightarrow> [] | Some n \<Rightarrow> [''_notes''])
           @ map (\<lambda>p. lower (fst p)) ?xs"
    unfolding requested_def option.case keys
    by (simp add: comp_def lower_notes split: option.splits)
qed

lemma wf_sections_facts:
  assumes d: "distinct (map (\<lambda>p. lower (fst p)) (named_of (headings z)))"
    and n: "list_all (\<lambda>p. lower (fst p) \<noteq> ''_notes'') (named_of (headings z))"
  shows "\<forall>p\<in>set (named_of (headings z)).
           lower (fst p) \<noteq> ''_notes''
           \<and> map_of (lookup_headings z) (lower (fst p)) = Some (fst p)
           \<and> heading_getitem z (fst p) = Inr (snd p)"
proof
  fix p
  assume p: "p \<in> set (named_of (headings z))"
  then have inh: "p \<in> set (headings z)"
    by (subst headings_split) simp
  then have key: "fst p \<in> set (dict_keys (headings z))"
    by (auto simp: dict_keys_def)
  have "lower (fst p) \<noteq> ''_notes''"
    using n p by (auto simp: list_all_iff)
  moreover have "map_of (lookup_headings z) (lower (fst p)) = Some (fst p)"
    using wf_headings_facts(1) [OF d n] key by (rule lookup_headings_key)
  moreover have "heading_getitem z (fst p) = Inr (snd p)"
    using wf_headings_facts(2) [OF d n] inh by (intro heading_getitem_entry) simp_all
  ultimately show "lower (fst p) \<noteq> ''_notes''
           \<and> map_of (lookup_headings z) (lower (fst p)) = Some (fst p)
           \<and> heading_getitem z (fst p) = Inr (snd p)"
    by simp
qed

lemma named_facts:
  assumes nf: "''_notes'' \<notin> set (map fst (named_of (headings z)))" and cs: "keys_differ z"
  shows "distinct (map (\<lambda>p. lower (fst p)) (named_of (headings z)))"
    and "list_all (\<lambda>p. lower (fst p) \<noteq> ''_notes'') (named_of (headings z))"
proof -
  let ?xs = "named_of (headings z)"
  from cs have dl: "distinct (map lower (dict_keys (headings z)))"
    and al: "\<forall>k\<in>set (dict_keys (headings z)). lower k \<noteq> ''_notes'' \<or> k = ''_notes''"
    by (simp_all add: keys_differ_def list_all_iff)
  have keys: "dict_keys (headings z)
                = (case notes_of (headings z) of None \<Rightarrow> [] | Some n \<Rightarrow> [''_notes'']) @ map fst ?xs"
    by (subst headings_split) (simp add: dict_keys_def split: option.splits)
  then obtain pre where pre: "dict_keys (headings z) = pre @ map fst ?xs"
    by blast
  have "distinct (map lower (map fst ?xs))"
    using dl unfolding pre by simp
  then show "distinct (map (\<lambda>p. lower (fst p)) ?xs)"
    by (simp add: comp_def)
  have h: "\<forall>k\<in>set (map fst ?xs). lower k \<noteq> ''_notes'' \<or> k = ''_notes''"
    using al unfolding pre by simp
  show "list_all (\<lambda>p. lower (fst p) \<noteq> ''_notes'') ?xs"
    unfolding list_all_iff
  proof
    fix p
    assume "p \<in> set ?xs"
    then have m: "fst p \<in> set (map fst ?xs)"
      by simp
    with h have "lower (fst p) \<noteq> ''_notes'' \<or> fst p = ''_notes''"
      by blast
    moreover have "fst p \<noteq> ''_notes''"
      using nf m by metis
    ultimately show "lower (fst p) \<noteq> ''_notes''"
      by blast
  qed
qed

lemma md_wf_sections:
  assumes "md_wf z"
  shows "list_all (\<lambda>p. md_name_ok (fst p) \<and> md_body_ok (snd p)) (named_of (headings z))"
  using assms by (simp add: md_wf_def)

lemma md_wf_named:
  assumes "md_wf z" and "keys_differ z"
  shows "distinct (map (\<lambda>p. lower (fst p)) (named_of (headings z)))"
    and "list_all (\<lambda>p. lower (fst p) \<noteq> ''_notes'') (named_of (headings z))"
  using assms named_facts [of z] by (simp_all add: md_wf_def)

lemma notes_entry:
  assumes "notes_of (headings z) = Some n"
  shows "(''_notes'', n) \<in> set (headings z)"
  by (subst headings_split) (simp add: assms)

lemma attr_blob_join:
  "join [CHR 0x0A] (ps @ m # ls @ [[]]) = concat (map (\<lambda>p. p @ [CHR 0x0A]) ps) @ m @ attr_blob ls"
proof -
  have "(@) [CHR 0x0A] = (#) (CHR 0x0A)"
    by (rule ext) simp
  then show ?thesis
    unfolding join_parts attr_blob_def by simp
qed

lemma md_encode:
  assumes wf: "md_wf z" and cs: "keys_differ z" and al: "attr_lines sv z = Inr ls"
  shows "getMd sv z None =
           Inr (concat (map (\<lambda>p. p @ [CHR 0x0A]) (md_parts z)) @ md_attr_header @ attr_blob ls)"
proof -
  note d = md_wf_named(1) [OF wf cs] and n = md_wf_named(2) [OF wf cs]
  let ?xs = "named_of (headings z)"
  let ?look = "lookup_headings z"
  let ?s1 = "if title z \<noteq> [] then [''# '' @ title z] else []"
  let ?s3 = "concat (map (\<lambda>p. [''## '' @ fst p, snd p]) ?xs)"
  have req: "requested z None =
           (case notes_of (headings z) of None \<Rightarrow> [] | Some n \<Rightarrow> [''_notes''])
           @ map (\<lambda>p. lower (fst p)) ?xs"
    by (rule wf_headings_facts(3) [OF d n])
  have nn: "''_notes'' \<notin> set (map (\<lambda>p. lower (fst p)) ?xs)"
    by (rule wf_headings_facts(4) [OF d n])
  have named: "md_sections z ?look (map (\<lambda>p. lower (fst p)) ?xs) = Inr ?s3"
    by (rule md_sections_named [OF wf_sections_facts [OF d n]])
  have sections: "md_sections z ?look (requested z None) = Inr ?s3"
    unfolding req using named by (simp split: option.splits)
  have nts: "(if ''_notes'' \<in> set (requested z None)
                then ebind (heading_getitem z ''_notes'') (\<lambda>n. Inr (if n \<noteq> [] then [n] else []))
                else Inr [])
               = Inr (case notes_of (headings z) of None \<Rightarrow> [] | Some n \<Rightarrow> [n])"
  proof (cases "notes_of (headings z)")
    case None
    then show ?thesis
      unfolding req using nn by simp
  next
    case (Some m)
    have "heading_getitem z ''_notes'' = Inr m"
      using wf_headings_facts(2) [OF d n] notes_entry [OF Some] by (rule heading_getitem_entry)
    moreover have "m \<noteq> []"
      using wf Some by (simp add: md_wf_def)
    ultimately show ?thesis
      unfolding req by (simp add: Some)
  qed
  have "getMd sv z None =
          Inr (join [CHR 0x0A]
                 (?s1 @ (case notes_of (headings z) of None \<Rightarrow> [] | Some n \<Rightarrow> [n]) @ ?s3
                  @ [md_attr_header] @ ls @ [[]]))"
    unfolding getMd_def Let_def nts sections al by simp
  also have "?s1 @ (case notes_of (headings z) of None \<Rightarrow> [] | Some n \<Rightarrow> [n]) @ ?s3
                  @ [md_attr_header] @ ls @ [[]] = md_parts z @ md_attr_header # ls @ [[]]"
    by (simp add: md_parts_def)
  finally show ?thesis
    by (simp only: attr_blob_join)
qed

section \<open>Decoding the text of a well-formed Zettel\<close>

lemma strip_framed:
  assumes b: "body = [] \<or> \<not> isspace (hd body)"
    and m: "m \<noteq> []" "\<not> isspace (hd m)" "\<not> isspace (last m)"
  shows "strip (body @ m @ r) = body @ m @ rstrip r"
proof -
  from m(1) obtain m' c where mc: "m = m' @ [c]"
    by (cases m rule: rev_cases) auto
  have c: "\<not> isspace c"
    using m(3) by (simp add: mc)
  have r: "rstrip (body @ m @ r) = body @ m @ rstrip r"
    using rstrip_append [OF c, of "body @ m'" r] by (simp add: mc)
  have "body @ m @ rstrip r = [] \<or> \<not> isspace (hd (body @ m @ rstrip r))"
    using b m(1,2) by (cases body) simp_all
  then show ?thesis
    unfolding strip_def r by (rule lstrip_id)
qed

lemma no_linebreak_append:
  "no_linebreak (a @ b) \<longleftrightarrow> no_linebreak a \<and> no_linebreak b"
  by (simp add: no_linebreak_def)

lemma no_linebreak_md_prefix: "no_linebreak ''# ''" "no_linebreak ''## ''"
  by (simp_all add: no_linebreak_def islinebreak_def)

lemma md_section_split:
  assumes "list_all (\<lambda>p. md_name_ok (fst p) \<and> md_body_ok (snd p)) xs"
  shows "concat (map (\<lambda>p. split p [CHR 0x0A]) (concat (map (\<lambda>p. [''## '' @ fst p, snd p]) xs)))
           = concat (map md_section_lines xs)"
  using assms
proof (induction xs)
  case Nil
  then show ?case by simp
next
  case (Cons p xs)
  then have "no_linebreak (''## '' @ fst p)"
    by (simp add: md_name_ok_def no_linebreak_append no_linebreak_md_prefix del: append.simps)
  then have "split (''## '' @ fst p) [CHR 0x0A] = [''## '' @ fst p]"
    by (rule split_no_linebreak)
  then show ?case
    using Cons by (simp add: md_section_lines_def del: append.simps)
qed

lemma md_section_only_nl:
  assumes "list_all (\<lambda>p. md_name_ok (fst p) \<and> md_body_ok (snd p)) xs"
  shows "list_all only_nl (concat (map (\<lambda>p. [''## '' @ fst p, snd p]) xs))"
  using assms
proof (induction xs)
  case Nil
  then show ?case by simp
next
  case (Cons p xs)
  then have "no_linebreak (''## '' @ fst p)" and "only_nl (snd p)"
    by (simp_all add: md_name_ok_def md_body_ok_def no_linebreak_append no_linebreak_md_prefix
        del: append.simps)
  then show ?case
    using Cons by (simp add: no_linebreak_only_nl del: append.simps)
qed

text \<open>The lines of the notes of a Zettel.\<close>

lemma md_lines:
  assumes wf: "md_wf z"
  shows "splitlines (concat (map (\<lambda>p. p @ [CHR 0x0A]) (md_parts z))) =
           (if title z \<noteq> [] then [''# '' @ title z] else [])
           @ (case notes_of (headings z) of None \<Rightarrow> [] | Some n \<Rightarrow> split n [CHR 0x0A])
           @ concat (map md_section_lines (named_of (headings z)))"
proof -
  note xs = md_wf_sections [OF wf]
  have t: "title z \<noteq> [] \<Longrightarrow> no_linebreak (''# '' @ title z)"
    using wf md_title_ok_facts(2) [of "title z"]
    by (simp add: md_wf_def no_linebreak_append no_linebreak_md_prefix del: append.simps)
  have n: "\<And>n. notes_of (headings z) = Some n \<Longrightarrow> only_nl n"
    using wf by (simp add: md_wf_def md_body_ok_def)
  have all: "list_all only_nl (md_parts z)"
    unfolding md_parts_def
    using t n md_section_only_nl [OF xs]
    by (simp add: no_linebreak_only_nl split: option.splits del: append.simps)
  have ts: "title z \<noteq> [] \<Longrightarrow> split (''# '' @ title z) [CHR 0x0A] = [''# '' @ title z]"
    using t by (rule split_no_linebreak)
  show ?thesis
    unfolding splitlines_parts [OF all]
    unfolding md_parts_def
    using ts md_section_split [OF xs]
    by (simp split: option.splits del: append.simps)
qed

lemma md_body_start:
  assumes wf: "md_wf z"
  shows "concat (map (\<lambda>p. p @ [CHR 0x0A]) (md_parts z)) = []
         \<or> \<not> isspace (hd (concat (map (\<lambda>p. p @ [CHR 0x0A]) (md_parts z))))"
proof (cases "title z = []")
  case False
  then show ?thesis
    by (simp add: md_parts_def isspace_def)
next
  case t: True
  show ?thesis
  proof (cases "notes_of (headings z)")
    case (Some n)
    then have "n \<noteq> []" and "\<not> isspace (hd n)"
      using wf t by (simp_all add: md_wf_def)
    then show ?thesis
      using t Some by (simp add: md_parts_def)
  next
    case None
    show ?thesis
    proof (cases "named_of (headings z)")
      case Nil
      then show ?thesis using t None by (simp add: md_parts_def)
    next
      case (Cons p xs)
      then show ?thesis using t None by (simp add: md_parts_def isspace_def)
    qed
  qed
qed

lemma md_title_lines:
  assumes wf: "md_wf z"
  shows "md_title ((if title z \<noteq> [] then [''# '' @ title z] else [])
           @ (case notes_of (headings z) of None \<Rightarrow> [] | Some n \<Rightarrow> split n [CHR 0x0A])
           @ concat (map md_section_lines (named_of (headings z))))
         = (title z,
            (case notes_of (headings z) of None \<Rightarrow> [] | Some n \<Rightarrow> split n [CHR 0x0A])
            @ concat (map md_section_lines (named_of (headings z))))"
proof (cases "title z = []")
  case False
  have "md_title_ok (title z)"
    using wf by (simp add: md_wf_def)
  from md_title_line [OF this False] show ?thesis
    using False by simp
next
  case t: True
  let ?ls = "(case notes_of (headings z) of None \<Rightarrow> [] | Some n \<Rightarrow> split n [CHR 0x0A])
            @ concat (map md_section_lines (named_of (headings z)))"
  have "?ls = [] \<or> \<not> startswith (strip (hd ?ls)) ''# ''"
  proof (cases "notes_of (headings z)")
    case (Some n)
    then have "\<not> startswith (strip (hd (split n [CHR 0x0A]))) ''# ''"
      using wf t by (simp add: md_wf_def)
    then show ?thesis
      using Some split_not_Nil [of n "[CHR 0x0A]"] by simp
  next
    case None
    show ?thesis
    proof (cases "named_of (headings z)")
      case Nil
      then show ?thesis using None by simp
    next
      case (Cons p xs)
      then show ?thesis
        using None md_heading_line_no_title [of "fst p"]
        by (simp add: md_section_lines_def)
    qed
  qed
  then have "md_title ?ls = ([], ?ls)"
    by (rule md_title_none)
  then show ?thesis
    using t by simp
qed

lemma md_headings_lines:
  assumes wf: "md_wf z" and cs: "keys_differ z"
  shows "md_headings ((case notes_of (headings z) of None \<Rightarrow> [] | Some n \<Rightarrow> split n [CHR 0x0A])
            @ concat (map md_section_lines (named_of (headings z)))) = headings z"
proof -
  note d = md_wf_named(1) [OF wf cs] and n = md_wf_named(2) [OF wf cs] and xs = md_wf_sections [OF wf]
  let ?ns = "case notes_of (headings z) of None \<Rightarrow> [] | Some n \<Rightarrow> split n [CHR 0x0A]"
  have ns: "list_all (\<lambda>x. \<not> is_md_heading x) ?ns"
    using wf by (simp add: md_wf_def md_body_ok_def split: option.splits)
  have "distinct (map lower (map fst (named_of (headings z))))"
    using d by (simp add: comp_def)
  then have dk: "distinct (map fst (named_of (headings z)))"
    by (simp only: distinct_map)
  have nk: "''_notes'' \<notin> set (map fst (named_of (headings z)))"
    by (rule wf_headings_facts(5) [OF d n])
  have j: "(if join [CHR 0x0A] ?ns = [] then [] else [(''_notes'', join [CHR 0x0A] ?ns)])
             = (case notes_of (headings z) of None \<Rightarrow> [] | Some n \<Rightarrow> [(''_notes'', n)])"
    using wf by (simp add: md_wf_def join_split split: option.splits)
  show ?thesis
    unfolding md_headings_sections [OF ns xs dk nk] j
    by (rule headings_split [symmetric])
qed

section \<open>The attributes read back\<close>

lemma attr_lines_dump:
  "toYamlDict sv (attrs z) = Inr y \<Longrightarrow> attr_lines sv z = Inr (dump_lines sv y)"
  by (simp add: attr_lines_def Attributes_str_def dump_lines_def)

lemma toYamlValue_rendering:
  "toYamlValue sv k (PSuperDate d) =
     Inr (if is_date_key k then PStr (rendering sv d) else PSuperDate d)"
  by (simp add: toYamlValue_def rendering_def)

text \<open>Assigning what \<open>toYamlDict\<close> wrote for a value stores the value again.\<close>

lemma setitem_restores:
  assumes "date_reparses sv k v" and "toYamlValue sv k v = Inr w"
  shows "Attributes_setitem sv acc k w = Inr (dict_set k v acc)"
proof (cases "truthy v \<and> is_date_key k")
  case True
  with assms(1) obtain d where v: "v = PSuperDate d"
    and r: "rendering sv d \<noteq> []" "SuperDate sv (PStr (rendering sv d)) = Some d"
    by (cases v) (simp_all add: date_reparses_def)
  from assms(2) True have w: "w = PStr (rendering sv d)"
    by (simp add: v toYamlValue_rendering)
  show ?thesis
    using True r by (simp add: w v Attributes_setitem_def)
next
  case False
  with assms(2) have "w = v"
    by (auto simp: toYamlValue_def)
  with False show ?thesis
    by (auto simp: Attributes_setitem_def)
qed

lemma toYamlDict_lookup:
  assumes "toYamlDict sv a = Inr y"
  shows "map fst y = map fst a"
    and "map_of y k = Some w \<Longrightarrow> \<exists>v. map_of a k = Some v \<and> toYamlValue sv k v = Inr w"
  using assms
proof (induction a arbitrary: y)
  case Nil
  {
    case 1
    then show ?case by simp
  next
    case 2
    then show ?case by simp
  }
next
  case (Cons p a)
  obtain k' v' where p: "p = (k', v')" by (cases p)
  {
    case 1
    then obtain w' r where w': "toYamlValue sv k' v' = Inr w'" and r: "toYamlDict sv a = Inr r"
      and y: "y = (k', w') # r"
      by (auto simp: p split: sum.splits)
    show ?case
      using Cons.IH(1) [OF r] by (simp add: y p)
  next
    case 2
    then obtain w' r where w': "toYamlValue sv k' v' = Inr w'" and r: "toYamlDict sv a = Inr r"
      and y: "y = (k', w') # r"
      by (auto simp: p split: sum.splits)
    show ?case
    proof (cases "k = k'")
      case True
      then show ?thesis
        using 2(1) w' by (simp add: y p)
    next
      case False
      then have "map_of r k = Some w"
        using 2(1) by (simp add: y)
      from Cons.IH(2) [OF this r] False show ?thesis
        by (simp add: p)
    qed
  }
qed

lemma dict_eq_map_of:
  assumes "dict_eq a b"
  shows "map_of a = map_of b" and "set (dict_keys a) = set (dict_keys b)"
proof -
  show m: "map_of a = map_of b"
  proof (rule ext)
    fix k
    show "map_of a k = map_of b k"
    proof (cases "k \<in> set (dict_keys a) \<or> k \<in> set (dict_keys b)")
      case True
      then show ?thesis
        using assms by (auto simp: dict_eq_def list_all_iff)
    next
      case False
      then have "map_of a k = None" and "map_of b k = None"
        by (simp_all add: map_of_None_iff_keys)
      then show ?thesis by simp
    qed
  qed
  have "dom (map_of a) = dom (map_of b)"
    by (simp add: m)
  then show "set (dict_keys a) = set (dict_keys b)"
    by (simp add: dom_map_of_conv_image_fst dict_keys_def)
qed

lemma Attributes_update_restores:
  assumes "distinct (dict_keys e)"
    and "\<And>k w. map_of e k = Some w \<Longrightarrow>
           \<exists>v. f k = Some v \<and> (\<forall>acc. Attributes_setitem sv acc k w = Inr (dict_set k v acc))"
  shows "\<exists>r. Attributes_update sv acc e = Inr r
           \<and> (\<forall>k. map_of r k = (if k \<in> set (dict_keys e) then f k else map_of acc k))
           \<and> set (dict_keys r) = set (dict_keys acc) \<union> set (dict_keys e)"
  using assms
proof (induction e arbitrary: acc)
  case Nil
  then show ?case by (simp add: dict_keys_def)
next
  case (Cons p e)
  obtain k w where p: "p = (k, w)" by (cases p)
  have kn: "k \<notin> set (dict_keys e)" and de: "distinct (dict_keys e)"
    using Cons.prems(1) by (simp_all add: p dict_keys_def)
  from Cons.prems(2) [of k w] obtain v where fk: "f k = Some v"
    and st: "\<And>acc. Attributes_setitem sv acc k w = Inr (dict_set k v acc)"
    by (auto simp: p)
  have rest: "\<And>k' w'. map_of e k' = Some w' \<Longrightarrow>
           \<exists>v. f k' = Some v \<and> (\<forall>acc. Attributes_setitem sv acc k' w' = Inr (dict_set k' v acc))"
  proof -
    fix k' w'
    assume m: "map_of e k' = Some w'"
    then have "k' \<in> set (dict_keys e)"
      using map_of_None_iff_keys [of e k'] by auto
    with kn have "k' \<noteq> k" by auto
    with m have "map_of (p # e) k' = Some w'"
      by (simp add: p)
    then show "\<exists>v. f k' = Some v \<and> (\<forall>acc. Attributes_setitem sv acc k' w' = Inr (dict_set k' v acc))"
      by (rule Cons.prems(2))
  qed
  from Cons.IH [OF de rest, of "dict_set k v acc"] obtain r
    where r: "Attributes_update sv (dict_set k v acc) e = Inr r"
      and mr: "\<forall>k'. map_of r k' = (if k' \<in> set (dict_keys e) then f k' else map_of (dict_set k v acc) k')"
      and kr: "set (dict_keys r) = set (dict_keys (dict_set k v acc)) \<union> set (dict_keys e)"
    by blast
  have "Attributes_update sv acc (p # e) = Inr r"
    by (simp add: p st r)
  moreover have "\<forall>k'. map_of r k' = (if k' \<in> set (dict_keys (p # e)) then f k' else map_of acc k')"
    using mr kn fk by (auto simp: p dict_keys_def map_of_dict_set_at)
  moreover have "set (dict_keys r) = set (dict_keys acc) \<union> set (dict_keys (p # e))"
    unfolding kr keys_dict_set by (auto simp: p dict_keys_def)
  ultimately show ?case by blast
qed

lemma Attributes_update_restores_Nil:
  assumes "distinct (dict_keys e)"
    and "\<And>k w. map_of e k = Some w \<Longrightarrow>
           \<exists>v. f k = Some v \<and> (\<forall>acc. Attributes_setitem sv acc k w = Inr (dict_set k v acc))"
  shows "\<exists>r. Attributes_update sv [] e = Inr r
           \<and> (\<forall>k. map_of r k = (if k \<in> set (dict_keys e) then f k else None))
           \<and> set (dict_keys r) = set (dict_keys e)"
  using Attributes_update_restores [OF assms, of "[]"] by (simp add: dict_keys_def cong: if_cong)

text \<open>
  The constructor, given a dictionary equal to the one \<open>toYamlDict\<close> made of the
  attributes \<open>a\<close>, builds attributes equal to \<open>a\<close>: the dates are parsed from their
  renderings, the other values are kept, and no default is added.
\<close>

lemma Zettel_attrs_restores:
  assumes ty: "toYamlDict sv a = Inr y" and ey: "dict_eq y' y" and dy: "distinct (dict_keys y')"
    and dr: "dates_reparse sv a" and df: "has_defaults a"
  shows "\<exists>r. Zettel_attrs sv y' = Inr r \<and> dict_eq r a"
proof -
  have ky: "set (dict_keys y) = set (dict_keys a)"
    using toYamlDict_lookup(1) [OF ty] by (simp add: dict_keys_def)
  have ky': "set (dict_keys y') = set (dict_keys a)"
    using dict_eq_map_of(2) [OF ey] ky by simp
  have each: "\<And>k w. map_of y' k = Some w \<Longrightarrow>
           \<exists>v. map_of a k = Some v \<and> (\<forall>acc. Attributes_setitem sv acc k w = Inr (dict_set k v acc))"
  proof -
    fix k w
    assume "map_of y' k = Some w"
    then have "map_of y k = Some w"
      using dict_eq_map_of(1) [OF ey] by simp
    from toYamlDict_lookup(2) [OF ty this] obtain v
      where v: "map_of a k = Some v" and w: "toYamlValue sv k v = Inr w"
      by blast
    from v have "(k, v) \<in> set a"
      by (rule map_of_SomeD)
    with dr have "date_reparses sv k v"
      by (auto simp: dates_reparse_def list_all_iff)
    then have "\<forall>acc. Attributes_setitem sv acc k w = Inr (dict_set k v acc)"
      using w by (simp add: setitem_restores)
    with v show "\<exists>v. map_of a k = Some v \<and> (\<forall>acc. Attributes_setitem sv acc k w = Inr (dict_set k v acc))"
      by blast
  qed
  have "\<exists>r. Attributes_update sv [] y' = Inr r
           \<and> (\<forall>k. map_of r k = (if k \<in> set (dict_keys y') then map_of a k else None))
           \<and> set (dict_keys r) = set (dict_keys y')"
  proof (rule Attributes_update_restores_Nil [where f = "map_of a", OF dy])
    fix k w
    assume "map_of y' k = Some w"
    then show "\<exists>v. map_of a k = Some v
                 \<and> (\<forall>acc. Attributes_setitem sv acc k w = Inr (dict_set k v acc))"
      by (rule each)
  qed
  then obtain r
    where r: "Attributes_update sv [] y' = Inr r"
      and mr: "\<forall>k. map_of r k = (if k \<in> set (dict_keys y') then map_of a k else None)"
      and kr: "set (dict_keys r) = set (dict_keys y')"
    by blast
  have keys: "set (dict_keys r) = set (dict_keys a)"
    using kr ky' by simp
  have "Zettel_attrs sv y' = Inr r"
    using df by (simp add: Zettel_attrs_def r keys has_defaults_def)
  moreover have "dict_eq r a"
    unfolding dict_eq_def list_all_iff
  proof
    fix k
    assume "k \<in> set (dict_keys r @ dict_keys a)"
    then have "k \<in> set (dict_keys y')"
      using keys ky' by simp
    then show "map_of r k = map_of a k"
      using mr by simp
  qed
  ultimately show ?thesis by blast
qed

lemma md_roundtrip:
  assumes wf: "md_wf z" and cs: "keys_differ z"
    and df: "has_defaults (attrs z)" and dr: "dates_reparse sv (attrs z)"
    and yr: "yaml_reloads sv md_attr_header [] (attrs z)"
    and nofile: "\<forall>text. getMd sv z None = Inr text \<longrightarrow> path_contents sv text = None"
  shows "\<exists>text z'. getMd sv z None = Inr text \<and> createFromMd sv text = Inr z'
           \<and> title z' = title z \<and> headings z' = headings z \<and> dict_eq (attrs z') (attrs z)"
proof -
  from yr obtain y where ty: "toYamlDict sv (attrs z) = Inr y"
    by (cases "toYamlDict sv (attrs z)") (simp_all add: yaml_reloads_def)
  define ls where "ls = dump_lines sv y"
  have al: "attr_lines sv z = Inr ls"
    by (simp add: attr_lines_dump [OF ty] ls_def)
  from yr ty have free: "\<not> sublist md_attr_header (attr_blob ls)"
    by (simp add: yaml_reloads_def contains_def ls_def)
  from yr ty obtain y' where ld: "yaml_safe_load sv (strip (attr_blob ls)) = Inr (Some y')"
      and dy: "distinct (dict_keys y')" and ey: "dict_eq y' y"
    by (auto simp: yaml_reloads_def ls_def split: sum.splits option.splits)
  from Zettel_attrs_restores [OF ty ey dy dr df] obtain a
    where za: "Zettel_attrs sv y' = Inr a" and eq: "dict_eq a (attrs z)"
    by blast
  let ?body = "concat (map (\<lambda>p. p @ [CHR 0x0A]) (md_parts z))"
  let ?text = "?body @ md_attr_header @ attr_blob ls"
  let ?ls = "(case notes_of (headings z) of None \<Rightarrow> [] | Some n \<Rightarrow> split n [CHR 0x0A])
            @ concat (map md_section_lines (named_of (headings z)))"
  have enc: "getMd sv z None = Inr ?text"
    by (rule md_encode [OF wf cs al])
  have rd: "read_text sv ?text = ?text"
    using nofile enc by (simp add: read_text_literal)
  have hdr: "md_attr_header \<noteq> []" "\<not> isspace (hd md_attr_header)" "\<not> isspace (last md_attr_header)"
    by (simp_all add: md_attr_header_def isspace_def)
  have st: "strip ?text = ?body @ md_attr_header @ rstrip (attr_blob ls)"
    using md_body_start [OF wf] hdr by (rule strip_framed)
  have ne: "strip ?text \<noteq> []"
    unfolding st using hdr(1) by simp
  have free': "\<not> sublist md_attr_header (rstrip (attr_blob ls))"
    using free sublist_rstrip by blast
  have sp: "split_attributes md_attr_header (strip ?text) = (?body, rstrip (attr_blob ls))"
    unfolding st by (rule split_attributes_last [OF md_attr_header_border_free hdr(1) free'])
  have ti: "md_title (splitlines ?body) = (title z, ?ls)"
    unfolding md_lines [OF wf] by (rule md_title_lines [OF wf])
  have hs: "md_headings ?ls = headings z"
    by (rule md_headings_lines [OF wf cs])
  have "createFromMd sv ?text = Inr \<lparr> title = title z, headings = headings z, attrs = a \<rparr>"
    unfolding createFromMd_def Let_def rd
    using ne by (simp add: sp strip_rstrip ld ti hs Zettel_init_def za)
  with enc eq show ?thesis
    by (intro exI [of _ ?text] exI [of _ "\<lparr> title = title z, headings = headings z, attrs = a \<rparr>"]) simp
qed

section \<open>The heading scan of the RST decoder\<close>

lemma rst_heading_pts_Cons:
  "rst_heading_pts (l # ls) =
     (if is_rst_heading l then [- 1] else []) @ map (\<lambda>x. x + 1) (rst_heading_pts ls)"
  unfolding rst_heading_pts_def by (simp add: filter_upt_Suc comp_def del: upt_Suc)

lemma rst_heading_pts_not_Nil: "rst_heading_pts rst \<noteq> []"
  by (simp add: rst_heading_pts_def)

lemma rst_heading_pts_ge: "\<forall>x\<in>set (rst_heading_pts rst). - 1 \<le> x"
  by (auto simp: rst_heading_pts_def)

lemma rst_heading_pts_nonneg:
  assumes "ls = [] \<or> \<not> is_rst_heading (hd ls)"
  shows "\<forall>x\<in>set (rst_heading_pts ls). 0 \<le> x"
proof (cases ls)
  case Nil
  then show ?thesis by (simp add: rst_heading_pts_def)
next
  case (Cons l ls')
  with assms have "\<not> is_rst_heading l" by simp
  then show ?thesis
    using rst_heading_pts_ge [of ls'] by (auto simp: Cons rst_heading_pts_Cons)
qed

lemma hd_rst_heading_pts:
  "hd (rst_heading_pts ls) =
     (if list_all (\<lambda>x. \<not> is_rst_heading x) ls then int (length ls)
      else int (length (takeWhile (\<lambda>x. \<not> is_rst_heading x) ls)) - 1)"
proof (induction ls)
  case Nil
  then show ?case by (simp add: rst_heading_pts_def)
next
  case (Cons l ls)
  then show ?case
    using rst_heading_pts_not_Nil [of ls]
    by (simp add: rst_heading_pts_Cons hd_map)
qed

lemma py_index_Cons: "0 \<le> a \<Longrightarrow> py_index (l # ls) (a + 1) = py_index ls a"
  by (simp add: py_index_def nat_add_distrib)

lemma py_bound_Cons: "0 \<le> a \<Longrightarrow> py_bound (l # ls) (a + 1) = Suc (py_bound ls a)"
  by (auto simp: py_bound_def Let_def nat_add_distrib)

lemma py_slice_Cons:
  "0 \<le> a \<Longrightarrow> 0 \<le> b \<Longrightarrow> py_slice (l # ls) (a + 1) (b + 1) = py_slice ls a b"
  by (simp add: py_slice_def py_bound_Cons slice_def)

lemma rst_section_Cons:
  assumes "0 \<le> a" and "0 \<le> b"
  shows "rst_section (l # ls) (a + 1, b + 1) = rst_section ls (a, b)"
proof -
  have i: "py_index (l # ls) (a + 1) = py_index ls a"
    using assms(1) by (rule py_index_Cons)
  have "py_slice (l # ls) ((a + 2) + 1) (b + 1) = py_slice ls (a + 2) b"
    using assms by (intro py_slice_Cons) simp_all
  moreover have "a + 1 + 2 = (a + 2) + 1"
    by simp
  ultimately have s: "py_slice (l # ls) (a + 1 + 2) (b + 1) = py_slice ls (a + 2) b"
    by (simp only:)
  show ?thesis
    by (simp only: rst_section_def prod.case i s)
qed

lemma rst_segments_shift:
  assumes "\<forall>x\<in>set ps. (0::int) \<le> x"
  shows "map (rst_section (l # ls)) (zip (map (\<lambda>x. x + 1) ps) (tl (map (\<lambda>x. x + 1) ps)))
           = map (rst_section ls) (zip ps (tl ps))"
proof -
  have "set (tl ps) \<subseteq> set ps"
    by (cases ps) auto
  then have "\<forall>p\<in>set (zip ps (tl ps)). 0 \<le> fst p \<and> 0 \<le> snd p"
    using assms by (auto dest: set_zip_leftD set_zip_rightD)
  then have "map (\<lambda>p. rst_section (l # ls) (fst p + 1, snd p + 1)) (zip ps (tl ps))
               = map (rst_section ls) (zip ps (tl ps))"
    by (intro map_cong refl) (auto simp: rst_section_Cons)
  then show ?thesis
    unfolding zip_tl_map by (simp add: case_prod_unfold comp_def)
qed

lemma rst_segments_skip1:
  assumes "\<not> is_rst_heading l" and "ls = [] \<or> \<not> is_rst_heading (hd ls)"
  shows "rst_segments (l # ls) = rst_segments ls"
  unfolding rst_segments_def
  using assms(1) rst_segments_shift [OF rst_heading_pts_nonneg [OF assms(2)]]
  by (simp add: rst_heading_pts_Cons)

lemma rst_segments_skip:
  assumes "list_all (\<lambda>x. \<not> is_rst_heading x) ns" and "ws = [] \<or> \<not> is_rst_heading (hd ws)"
  shows "rst_segments (ns @ ws) = rst_segments ws"
  using assms
proof (induction ns)
  case Nil
  then show ?case by simp
next
  case (Cons l ns)
  then have l: "\<not> is_rst_heading l" and ns: "list_all (\<lambda>x. \<not> is_rst_heading x) ns"
    by simp_all
  have "ns @ ws = [] \<or> \<not> is_rst_heading (hd (ns @ ws))"
    using ns Cons.prems(2) by (cases ns) simp_all
  from rst_segments_skip1 [OF l this] Cons.IH [OF ns Cons.prems(2)]
  show ?case by simp
qed

section \<open>Reading back the sections of an RST text\<close>

lemma strip_no_space:
  assumes "\<forall>c\<in>set s. \<not> isspace c"
  shows "strip s = s"
proof -
  have 1: "dropWhile isspace (rev s) = rev s"
  proof (cases "rev s")
    case Nil
    then show ?thesis by simp
  next
    case (Cons a l)
    then have "a \<in> set s"
      by (metis list.set_intros(1) set_rev)
    with assms have "\<not> isspace a"
      by blast
    then show ?thesis
      by (simp add: Cons)
  qed
  have 2: "dropWhile isspace s = s"
    using assms by (cases s) simp_all
  show ?thesis
    by (simp add: strip_def rstrip_def lstrip_def 1 2)
qed

lemma rule_is_heading:
  assumes "0 < n"
  shows "is_rst_heading (replicate n CHR ''='')"
proof -
  from assms obtain m where n: "n = Suc m"
    by (cases n) simp_all
  have st: "strip (replicate n CHR ''='') = replicate n CHR ''=''"
    by (rule strip_no_space) (simp add: isspace_def)
  have pre: "prefix ''='' (replicate n CHR ''='')"
    by (simp add: n)
  have "replicate n CHR ''='' = replicate m CHR ''='' @ ''=''"
    by (simp add: n replicate_append_same)
  then have suf: "suffix ''='' (replicate n CHR ''='')"
    by (metis suffixI)
  show ?thesis
    unfolding is_rst_heading_def startswith_def endswith_def st using pre suf by simp
qed

lemma py_slice_take: "py_slice xs 0 (int n) = take n xs"
  by (simp add: py_slice_def py_bound_def Let_def slice_def min_def)

lemma rst_sections_head:
  assumes "list_all (\<lambda>p. rst_name_ok (fst p) \<and> rst_body_ok (snd p)) xs"
  shows "concat (map rst_section_lines xs) = []
         \<or> \<not> is_rst_heading (hd (concat (map rst_section_lines xs)))"
  using assms by (cases xs) (simp_all add: rst_section_lines_def rst_name_ok_def)

lemma hd_rst_heading_pts_block:
  assumes ns: "list_all (\<lambda>x. \<not> is_rst_heading x) ns"
    and xs: "list_all (\<lambda>p. rst_name_ok (fst p) \<and> rst_body_ok (snd p)) xs"
  shows "hd (rst_heading_pts (ns @ concat (map rst_section_lines xs))) = int (length ns)"
proof (cases xs)
  case Nil
  then show ?thesis
    using ns by (simp add: hd_rst_heading_pts)
next
  case (Cons p xs')
  let ?k = "fst p" and ?rule = "replicate (length (fst p)) CHR ''=''"
  obtain rest where w: "concat (map rst_section_lines xs) = ?k # ?rule # rest"
    by (simp add: Cons rst_section_lines_def)
  have k: "\<not> is_rst_heading ?k" and r: "is_rst_heading ?rule"
    using xs by (simp_all add: Cons rst_name_ok_def rule_is_heading)
  have tw: "takeWhile (\<lambda>x. \<not> is_rst_heading x) (ns @ ?k # ?rule # rest) = ns @ [?k]"
    using ns k r by (simp add: takeWhile_append2 list_all_iff)
  have "\<not> list_all (\<lambda>x. \<not> is_rst_heading x) (ns @ ?k # ?rule # rest)"
    using r by simp
  then show ?thesis
    unfolding w hd_rst_heading_pts tw by simp
qed

lemma rst_segments_section:
  assumes k: "rst_name_ok k" and b: "rst_body_ok b"
    and xs: "list_all (\<lambda>p. rst_name_ok (fst p) \<and> rst_body_ok (snd p)) xs"
  shows "rst_segments (k # replicate (length k) CHR ''='' # split b [CHR 0x0A]
                         @ concat (map rst_section_lines xs))
           = (k, b) # rst_segments (split b [CHR 0x0A] @ concat (map rst_section_lines xs))"
proof -
  let ?rule = "replicate (length k) CHR ''=''"
  let ?sb = "split b [CHR 0x0A]"
  let ?X = "?sb @ concat (map rst_section_lines xs)"
  let ?P = "rst_heading_pts ?X"
  let ?Q = "map (\<lambda>x. x + 1) ?P"
  have nk: "\<not> is_rst_heading k" and r: "is_rst_heading ?rule"
    using k by (simp_all add: rst_name_ok_def rule_is_heading)
  have lines: "list_all (\<lambda>x. \<not> is_rst_heading x) ?sb"
    using b by (simp add: rst_body_ok_def)
  have first: "?X = [] \<or> \<not> is_rst_heading (hd ?X)"
    using lines split_not_Nil [of b "[CHR 0x0A]"] by (cases ?sb) simp_all
  have P: "\<forall>x\<in>set ?P. 0 \<le> x"
    by (rule rst_heading_pts_nonneg [OF first])
  then have Q: "\<forall>x\<in>set ?Q. 0 \<le> x"
    by auto
  obtain h t where p: "?P = h # t"
    using rst_heading_pts_not_Nil [of ?X] by (cases ?P) auto
  have h: "h = int (length ?sb)"
    using hd_rst_heading_pts_block [OF lines xs] by (simp add: p)
  have pts: "rst_heading_pts (k # ?rule # ?X) = 0 # map (\<lambda>x. x + 1) ?Q"
    using nk r by (simp add: rst_heading_pts_Cons)
  have tail: "map (rst_section (k # ?rule # ?X)) (zip (map (\<lambda>x. x + 1) ?Q) (tl (map (\<lambda>x. x + 1) ?Q)))
                = rst_segments ?X"
    unfolding rst_segments_shift [OF Q] rst_segments_shift [OF P] rst_segments_def ..
  have s1: "py_slice (?rule # ?X) (0 + 1) (int (length ?sb) + 1) = py_slice ?X 0 (int (length ?sb))"
    by (rule py_slice_Cons) simp_all
  have s2: "py_slice (k # ?rule # ?X) ((0 + 1) + 1) ((int (length ?sb) + 1) + 1)
              = py_slice (?rule # ?X) (0 + 1) (int (length ?sb) + 1)"
    by (rule py_slice_Cons) simp_all
  have "py_slice (k # ?rule # ?X) ((0 + 1) + 1) ((int (length ?sb) + 1) + 1) = ?sb"
    unfolding s2 s1 py_slice_take by simp
  then have sl: "py_slice (k # ?rule # ?X) (0 + 2) (h + 1 + 1) = ?sb"
    by (simp add: h)
  have i: "py_index (k # ?rule # ?X) 0 = k"
    by (simp add: py_index_def)
  have head: "rst_section (k # ?rule # ?X) (0, h + 1 + 1) = (k, b)"
    by (simp only: rst_section_def prod.case i sl join_split)
  have "rst_segments (k # ?rule # ?X)
          = rst_section (k # ?rule # ?X) (0, h + 1 + 1)
            # map (rst_section (k # ?rule # ?X)) (zip (map (\<lambda>x. x + 1) ?Q) (tl (map (\<lambda>x. x + 1) ?Q)))"
    unfolding rst_segments_def pts by (simp add: p)
  then show ?thesis
    unfolding head tail by simp
qed

lemma rst_segments_sections:
  assumes "list_all (\<lambda>p. rst_name_ok (fst p) \<and> rst_body_ok (snd p)) xs"
  shows "rst_segments (concat (map rst_section_lines xs)) = xs"
  using assms
proof (induction xs)
  case Nil
  then show ?case by (simp add: rst_segments_def rst_heading_pts_def)
next
  case (Cons p xs)
  then have k: "rst_name_ok (fst p)" and b: "rst_body_ok (snd p)"
    and xs: "list_all (\<lambda>p. rst_name_ok (fst p) \<and> rst_body_ok (snd p)) xs"
    by simp_all
  have lines: "list_all (\<lambda>x. \<not> is_rst_heading x) (split (snd p) [CHR 0x0A])"
    using b by (simp add: rst_body_ok_def)
  have "rst_segments (concat (map rst_section_lines (p # xs)))
          = (fst p, snd p) # rst_segments (split (snd p) [CHR 0x0A] @ concat (map rst_section_lines xs))"
    using rst_segments_section [OF k b xs] by (simp add: rst_section_lines_def)
  also have "\<dots> = (fst p, snd p) # xs"
    using rst_segments_skip [OF lines rst_sections_head [OF xs]] Cons.IH [OF xs] by simp
  finally show ?case by simp
qed

lemma rst_headings_scan:
  "rst_headings rst =
     fold (\<lambda>(k, b) hs. dict_set k b hs) (rst_segments rst)
       (let notes = join [CHR 0x0A] (py_slice rst 0 (hd (rst_heading_pts rst)))
        in if notes = [] then [] else [(''_notes'', notes)])"
proof -
  let ?p = "rst_heading_pts rst"
  have loop: "\<And>hs0. fold (\<lambda>ptr hs.
                 dict_set (py_index rst (?p ! ptr))
                   (join [CHR 0x0A] (py_slice rst (?p ! ptr + 2) (?p ! (ptr + 1)))) hs)
           [0..<length ?p - 1] hs0
        = fold (\<lambda>(k, b) hs. dict_set k b hs) (map (rst_section rst) (zip ?p (tl ?p))) hs0"
    unfolding zip_tl_nth by (simp add: fold_map comp_def rst_section_def)
  show ?thesis
    unfolding rst_headings_def Let_def loop rst_segments_def ..
qed

lemma rst_headings_sections:
  assumes ns: "list_all (\<lambda>x. \<not> is_rst_heading x) ns"
    and xs: "list_all (\<lambda>p. rst_name_ok (fst p) \<and> rst_body_ok (snd p)) xs"
    and d: "distinct (map fst xs)" and n: "''_notes'' \<notin> set (map fst xs)"
  shows "rst_headings (ns @ concat (map rst_section_lines xs)) =
           (if join [CHR 0x0A] ns = [] then [] else [(''_notes'', join [CHR 0x0A] ns)]) @ xs"
proof -
  let ?w = "concat (map rst_section_lines xs)"
  have nt: "py_slice (ns @ ?w) 0 (hd (rst_heading_pts (ns @ ?w))) = ns"
    unfolding hd_rst_heading_pts_block [OF ns xs] py_slice_take by simp
  have seg: "rst_segments (ns @ ?w) = xs"
    using rst_segments_skip [OF ns rst_sections_head [OF xs]] rst_segments_sections [OF xs] by simp
  let ?hs0 = "if join [CHR 0x0A] ns = [] then [] else [(''_notes'', join [CHR 0x0A] ns)]"
  have disj: "set (map fst xs) \<inter> set (dict_keys ?hs0) = {}"
    using n by (simp add: dict_keys_def)
  show ?thesis
    unfolding rst_headings_scan nt seg Let_def
    by (rule fold_dict_set_new [OF d disj])
qed

section \<open>The RST text of a well-formed Zettel\<close>

lemma strip_ends:
  assumes "strip s \<noteq> []"
  shows "\<not> isspace (hd (strip s))" and "\<not> isspace (last (strip s))"
proof -
  let ?u = "rev (dropWhile isspace (rev s))"
  have s: "strip s = dropWhile isspace ?u"
    by (simp add: strip_def lstrip_def rstrip_def)
  show "\<not> isspace (hd (strip s))"
    using assms unfolding s by (rule hd_dropWhile)
  have u: "?u \<noteq> []"
    using assms unfolding s by (metis dropWhile.simps(1))
  have "?u = takeWhile isspace ?u @ dropWhile isspace ?u"
    by simp
  then have "last ?u = last (dropWhile isspace ?u)"
    using assms unfolding s by (metis last_appendR)
  moreover have "last ?u = hd (dropWhile isspace (rev s))"
    using u by (simp add: last_rev)
  moreover have "\<not> isspace (hd (dropWhile isspace (rev s)))"
  proof (rule hd_dropWhile)
    show "dropWhile isspace (rev s) \<noteq> []"
      using u by simp
  qed
  ultimately show "\<not> isspace (last (strip s))"
    unfolding s by simp
qed

lemma rst_wf_sections:
  assumes "rst_wf z"
  shows "list_all (\<lambda>p. rst_name_ok (fst p) \<and> rst_body_ok (snd p)) (named_of (headings z))"
  using assms by (simp add: rst_wf_def)

lemma rst_wf_named:
  assumes "rst_wf z" and "keys_differ z"
  shows "distinct (map (\<lambda>p. lower (fst p)) (named_of (headings z)))"
    and "list_all (\<lambda>p. lower (fst p) \<noteq> ''_notes'') (named_of (headings z))"
  using assms named_facts [of z] by (simp_all add: rst_wf_def)

lemma rst_blob_join:
  "join [CHR 0x0A] (ps @ [''.. attributes'', ''::'', []] @ ls @ [[]])
     = concat (map (\<lambda>p. p @ [CHR 0x0A]) ps) @ rst_attr_header @ CHR 0x0A # attr_blob ls"
proof -
  have e: "(@) [CHR 0x0A] = (#) (CHR 0x0A)"
    by (rule ext) simp
  have "join [CHR 0x0A] (ps @ ''.. attributes'' # (''::'' # [] # ls @ [[]]))
          = concat (map (\<lambda>p. p @ [CHR 0x0A]) ps) @ ''.. attributes''
            @ concat (map (\<lambda>q. [CHR 0x0A] @ q) (''::'' # [] # ls @ [[]]))"
    by (rule join_parts)
  then show ?thesis
    by (simp add: e attr_blob_def rst_attr_header_def)
qed

lemma rst_encode:
  assumes wf: "rst_wf z" and cs: "keys_differ z" and al: "attr_lines sv z = Inr ls"
  shows "getRst sv z None =
           Inr (concat (map (\<lambda>p. p @ [CHR 0x0A]) (rst_parts z)) @ rst_attr_header
                @ CHR 0x0A # attr_blob ls)"
proof -
  note d = rst_wf_named(1) [OF wf cs] and n = rst_wf_named(2) [OF wf cs]
  let ?xs = "named_of (headings z)"
  let ?look = "lookup_headings z"
  let ?rule = "replicate (length (title z) + 2) CHR ''=''"
  let ?s1 = "if title z \<noteq> [] then [?rule, '' '' @ title z, ?rule] else []"
  let ?s3 = "concat (map (\<lambda>p. [fst p, replicate (length (fst p)) CHR ''='', snd p]) ?xs)"
  have req: "requested z None =
           (case notes_of (headings z) of None \<Rightarrow> [] | Some n \<Rightarrow> [''_notes''])
           @ map (\<lambda>p. lower (fst p)) ?xs"
    by (rule wf_headings_facts(3) [OF d n])
  have nn: "''_notes'' \<notin> set (map (\<lambda>p. lower (fst p)) ?xs)"
    by (rule wf_headings_facts(4) [OF d n])
  have named: "rst_sections z ?look (map (\<lambda>p. lower (fst p)) ?xs) = Inr ?s3"
    by (rule rst_sections_named [OF wf_sections_facts [OF d n]])
  have sections: "rst_sections z ?look (requested z None) = Inr ?s3"
    unfolding req using named by (simp split: option.splits)
  have nts: "(if ''_notes'' \<in> set (requested z None)
                then ebind (heading_getitem z ''_notes'') (\<lambda>n. Inr [n])
                else Inr [])
               = Inr (case notes_of (headings z) of None \<Rightarrow> [] | Some n \<Rightarrow> [n])"
  proof (cases "notes_of (headings z)")
    case None
    then show ?thesis
      unfolding req using nn by simp
  next
    case (Some m)
    have "heading_getitem z ''_notes'' = Inr m"
      using wf_headings_facts(2) [OF d n] notes_entry [OF Some] by (rule heading_getitem_entry)
    then show ?thesis
      unfolding req by (simp add: Some)
  qed
  have "getRst sv z None =
          Inr (join [CHR 0x0A]
                 (?s1 @ (case notes_of (headings z) of None \<Rightarrow> [] | Some n \<Rightarrow> [n]) @ ?s3
                  @ [''.. attributes'', ''::'', []] @ ls @ [[]]))"
    unfolding getRst_def Let_def nts sections al by simp
  also have "?s1 @ (case notes_of (headings z) of None \<Rightarrow> [] | Some n \<Rightarrow> [n]) @ ?s3
                  @ [''.. attributes'', ''::'', []] @ ls @ [[]]
               = rst_parts z @ [''.. attributes'', ''::'', []] @ ls @ [[]]"
    by (simp add: rst_parts_def)
  finally show ?thesis
    by (simp only: rst_blob_join)
qed

lemma no_linebreak_rule: "no_linebreak (replicate n CHR ''='')"
  by (simp add: no_linebreak_def islinebreak_def list_all_iff)

lemma rst_section_split:
  assumes "list_all (\<lambda>p. rst_name_ok (fst p) \<and> rst_body_ok (snd p)) xs"
  shows "concat (map (\<lambda>p. split p [CHR 0x0A])
                   (concat (map (\<lambda>p. [fst p, replicate (length (fst p)) CHR ''='', snd p]) xs)))
           = concat (map rst_section_lines xs)"
  using assms
proof (induction xs)
  case Nil
  then show ?case by simp
next
  case (Cons p xs)
  then have "no_linebreak (fst p)"
    by (simp add: rst_name_ok_def)
  then have "split (fst p) [CHR 0x0A] = [fst p]"
    by (rule split_no_linebreak)
  moreover have "split (replicate (length (fst p)) CHR ''='') [CHR 0x0A]
                   = [replicate (length (fst p)) CHR ''='']"
    by (rule split_no_linebreak [OF no_linebreak_rule])
  ultimately show ?case
    using Cons by (simp add: rst_section_lines_def)
qed

lemma rst_section_only_nl:
  assumes "list_all (\<lambda>p. rst_name_ok (fst p) \<and> rst_body_ok (snd p)) xs"
  shows "list_all only_nl (concat (map (\<lambda>p. [fst p, replicate (length (fst p)) CHR ''='', snd p]) xs))"
  using assms
  by (induction xs)
     (simp_all add: rst_name_ok_def rst_body_ok_def no_linebreak_only_nl no_linebreak_rule)

lemma rst_lines:
  assumes wf: "rst_wf z"
  shows "splitlines (concat (map (\<lambda>p. p @ [CHR 0x0A]) (rst_parts z))) =
           (if title z \<noteq> []
            then [replicate (length (title z) + 2) CHR ''='', '' '' @ title z,
                  replicate (length (title z) + 2) CHR ''='']
            else [])
           @ (case notes_of (headings z) of None \<Rightarrow> [] | Some n \<Rightarrow> split n [CHR 0x0A])
           @ concat (map rst_section_lines (named_of (headings z)))"
proof -
  note xs = rst_wf_sections [OF wf]
  have t: "title z \<noteq> [] \<Longrightarrow> no_linebreak ('' '' @ title z)"
    using wf by (simp add: rst_wf_def rst_title_ok_def no_linebreak_def islinebreak_def)
  have n: "\<And>n. notes_of (headings z) = Some n \<Longrightarrow> only_nl n"
    using wf by (simp add: rst_wf_def rst_body_ok_def)
  have all: "list_all only_nl (rst_parts z)"
    unfolding rst_parts_def
    using t n rst_section_only_nl [OF xs]
    by (simp add: no_linebreak_only_nl no_linebreak_rule split: option.splits del: append.simps replicate.simps)
  have ts: "title z \<noteq> [] \<Longrightarrow> split ('' '' @ title z) [CHR 0x0A] = ['' '' @ title z]"
    using t by (rule split_no_linebreak)
  have rs: "split (replicate (length (title z) + 2) CHR ''='') [CHR 0x0A]
              = [replicate (length (title z) + 2) CHR ''='']"
    by (rule split_no_linebreak [OF no_linebreak_rule])
  show ?thesis
    unfolding splitlines_parts [OF all]
    unfolding rst_parts_def
    using ts rs rst_section_split [OF xs]
    by (simp split: option.splits del: append.simps replicate.simps)
qed

lemma rst_body_start:
  assumes wf: "rst_wf z"
  shows "concat (map (\<lambda>p. p @ [CHR 0x0A]) (rst_parts z)) = []
         \<or> \<not> isspace (hd (concat (map (\<lambda>p. p @ [CHR 0x0A]) (rst_parts z))))"
proof (cases "title z = []")
  case False
  have "replicate (length (title z) + 2) CHR ''='' = CHR ''='' # replicate (length (title z) + 1) CHR ''=''"
    by simp
  then show ?thesis
    using False by (simp add: rst_parts_def isspace_def del: replicate.simps)
next
  case t: True
  show ?thesis
  proof (cases "notes_of (headings z)")
    case (Some n)
    then have "n \<noteq> []" and "\<not> isspace (hd n)"
      using wf t by (simp_all add: rst_wf_def)
    then show ?thesis
      using t Some by (simp add: rst_parts_def)
  next
    case None
    show ?thesis
    proof (cases "named_of (headings z)")
      case Nil
      then show ?thesis using t None by (simp add: rst_parts_def)
    next
      case (Cons p xs)
      then have "fst p \<noteq> []" and "\<not> isspace (hd (fst p))"
        using wf t None by (simp_all add: rst_wf_def rst_name_ok_def)
      then show ?thesis using t None Cons by (simp add: rst_parts_def)
    qed
  qed
qed

lemma strip_indent:
  assumes "t \<noteq> []" and "strip t = t"
  shows "strip ('' '' @ t) = t"
proof -
  have ne: "strip t \<noteq> []"
    using assms by simp
  have h: "\<not> isspace (hd t)" and l: "\<not> isspace (last t)"
    using strip_ends [OF ne] assms(2) by simp_all
  obtain m c where m: "t = m @ [c]"
    using assms(1) by (cases t rule: rev_cases) auto
  have c: "\<not> isspace c"
    using l m by simp
  have "rstrip ('' '' @ t) = (CHR '' '' # m) @ c # rstrip []"
    unfolding m using rstrip_append [OF c, of "CHR '' '' # m" "[]"] by simp
  then have r: "rstrip (CHR '' '' # t) = CHR '' '' # t"
    by (simp add: m rstrip_def)
  have "lstrip (CHR '' '' # t) = lstrip t"
    by (simp add: lstrip_def isspace_def)
  also have "\<dots> = t"
    using h by (intro lstrip_id) simp
  finally show ?thesis
    by (simp add: strip_def r)
qed

lemma rst_title_none:
  "ls = [] \<or> \<not> is_rst_heading (hd ls) \<Longrightarrow> rst_title ls = ([], ls)"
  by (cases ls) (simp_all add: rst_title_def)

lemma rst_title_lines:
  assumes wf: "rst_wf z"
  shows "rst_title ((if title z \<noteq> []
            then [replicate (length (title z) + 2) CHR ''='', '' '' @ title z,
                  replicate (length (title z) + 2) CHR ''='']
            else [])
           @ (case notes_of (headings z) of None \<Rightarrow> [] | Some n \<Rightarrow> split n [CHR 0x0A])
           @ concat (map rst_section_lines (named_of (headings z))))
         = (title z,
            (case notes_of (headings z) of None \<Rightarrow> [] | Some n \<Rightarrow> split n [CHR 0x0A])
            @ concat (map rst_section_lines (named_of (headings z))))"
proof (cases "title z = []")
  case False
  let ?rule = "replicate (length (title z) + 2) CHR ''=''"
  have "strip (title z) = title z"
    using wf False by (simp add: rst_wf_def rst_title_ok_def)
  then have s: "strip ('' '' @ title z) = title z"
    by (rule strip_indent [OF False])
  have r: "is_rst_heading ?rule"
    by (rule rule_is_heading) simp
  have "\<And>rest. rst_title (?rule # ('' '' @ title z) # ?rule # rest) = (title z, rest)"
    using r s by (simp add: rst_title_def del: replicate.simps)
  then show ?thesis
    using False by (simp del: replicate.simps)
next
  case t: True
  let ?ls = "(case notes_of (headings z) of None \<Rightarrow> [] | Some n \<Rightarrow> split n [CHR 0x0A])
            @ concat (map rst_section_lines (named_of (headings z)))"
  have "?ls = [] \<or> \<not> is_rst_heading (hd ?ls)"
  proof (cases "notes_of (headings z)")
    case (Some n)
    then have "list_all (\<lambda>l. \<not> is_rst_heading l) (split n [CHR 0x0A])"
      using wf by (simp add: rst_wf_def rst_body_ok_def)
    then have "\<not> is_rst_heading (hd (split n [CHR 0x0A]))"
      using split_not_Nil [of n "[CHR 0x0A]"] by (cases "split n [CHR 0x0A]") simp_all
    then show ?thesis
      using Some split_not_Nil [of n "[CHR 0x0A]"] by simp
  next
    case None
    show ?thesis
      using None rst_sections_head [OF rst_wf_sections [OF wf]] by simp
  qed
  then have "rst_title ?ls = ([], ?ls)"
    by (rule rst_title_none)
  then show ?thesis
    using t by simp
qed

lemma rst_headings_lines:
  assumes wf: "rst_wf z" and cs: "keys_differ z"
  shows "rst_headings ((case notes_of (headings z) of None \<Rightarrow> [] | Some n \<Rightarrow> split n [CHR 0x0A])
            @ concat (map rst_section_lines (named_of (headings z)))) = headings z"
proof -
  note d = rst_wf_named(1) [OF wf cs] and n = rst_wf_named(2) [OF wf cs] and xs = rst_wf_sections [OF wf]
  let ?ns = "case notes_of (headings z) of None \<Rightarrow> [] | Some n \<Rightarrow> split n [CHR 0x0A]"
  have ns: "list_all (\<lambda>x. \<not> is_rst_heading x) ?ns"
    using wf by (simp add: rst_wf_def rst_body_ok_def split: option.splits)
  have "distinct (map lower (map fst (named_of (headings z))))"
    using d by (simp add: comp_def)
  then have dk: "distinct (map fst (named_of (headings z)))"
    by (simp only: distinct_map)
  have nk: "''_notes'' \<notin> set (map fst (named_of (headings z)))"
    by (rule wf_headings_facts(5) [OF d n])
  have j: "(if join [CHR 0x0A] ?ns = [] then [] else [(''_notes'', join [CHR 0x0A] ?ns)])
             = (case notes_of (headings z) of None \<Rightarrow> [] | Some n \<Rightarrow> [(''_notes'', n)])"
    using wf by (simp add: rst_wf_def join_split split: option.splits)
  show ?thesis
    unfolding rst_headings_sections [OF ns xs dk nk] j
    by (rule headings_split [symmetric])
qed

lemma rst_roundtrip:
  assumes wf: "rst_wf z" and cs: "keys_differ z"
    and df: "has_defaults (attrs z)" and dr: "dates_reparse sv (attrs z)"
    and yr: "yaml_reloads sv rst_attr_header [CHR 0x0A] (attrs z)"
    and nofile: "\<forall>text. getRst sv z None = Inr text \<longrightarrow> path_contents sv text = None"
  shows "\<exists>text z'. getRst sv z None = Inr text \<and> createFromRst sv text = Inr z'
           \<and> title z' = title z \<and> headings z' = headings z \<and> dict_eq (attrs z') (attrs z)"
proof -
  from yr obtain y where ty: "toYamlDict sv (attrs z) = Inr y"
    by (cases "toYamlDict sv (attrs z)") (simp_all add: yaml_reloads_def)
  define ls where "ls = dump_lines sv y"
  have al: "attr_lines sv z = Inr ls"
    by (simp add: attr_lines_dump [OF ty] ls_def)
  let ?blob = "CHR 0x0A # attr_blob ls"
  from yr ty have free: "\<not> sublist rst_attr_header ?blob"
    by (simp add: yaml_reloads_def contains_def ls_def)
  from yr ty obtain y' where ld: "yaml_safe_load sv (strip ?blob) = Inr (Some y')"
      and dy: "distinct (dict_keys y')" and ey: "dict_eq y' y"
    by (auto simp: yaml_reloads_def ls_def split: sum.splits option.splits)
  from Zettel_attrs_restores [OF ty ey dy dr df] obtain a
    where za: "Zettel_attrs sv y' = Inr a" and eq: "dict_eq a (attrs z)"
    by blast
  let ?body = "concat (map (\<lambda>p. p @ [CHR 0x0A]) (rst_parts z))"
  let ?text = "?body @ rst_attr_header @ ?blob"
  let ?ls = "(case notes_of (headings z) of None \<Rightarrow> [] | Some n \<Rightarrow> split n [CHR 0x0A])
            @ concat (map rst_section_lines (named_of (headings z)))"
  have enc: "getRst sv z None = Inr ?text"
    by (rule rst_encode [OF wf cs al])
  have rd: "read_text sv ?text = ?text"
    using nofile enc by (simp add: read_text_literal)
  have hdr: "rst_attr_header \<noteq> []" "\<not> isspace (hd rst_attr_header)" "\<not> isspace (last rst_attr_header)"
    by (simp_all add: rst_attr_header_def isspace_def)
  have st: "strip ?text = ?body @ rst_attr_header @ rstrip ?blob"
    using rst_body_start [OF wf] hdr by (rule strip_framed)
  have ne: "strip ?text \<noteq> []"
    unfolding st using hdr(1) by simp
  have free': "\<not> sublist rst_attr_header (rstrip ?blob)"
    using free sublist_rstrip by blast
  have sp: "split_attributes rst_attr_header (strip ?text) = (?body, rstrip ?blob)"
    unfolding st by (rule split_attributes_last [OF rst_attr_header_border_free hdr(1) free'])
  have ti: "rst_title (splitlines ?body) = (title z, ?ls)"
    unfolding rst_lines [OF wf] by (rule rst_title_lines [OF wf])
  have hs: "rst_headings ?ls = headings z"
    by (rule rst_headings_lines [OF wf cs])
  have "createFromRst sv ?text = Inr \<lparr> title = title z, headings = headings z, attrs = a \<rparr>"
    unfolding createFromRst_def Let_def rd
    using ne by (simp add: sp strip_rstrip ld ti hs Zettel_init_def za)
  with enc eq show ?thesis
    by (intro exI [of _ ?text] exI [of _ "\<lparr> title = title z, headings = headings z, attrs = a \<rparr>"]) simp
qed

section \<open>Decoding the encoding of a Zettel\<close>

lemma names_no_file_Inr:
  "names_no_file sv r \<Longrightarrow> \<forall>text. r = Inr text \<longrightarrow> path_contents sv text = None"
  by (auto simp: names_no_file_def)

text \<open>
  C1.  The claim fails for the Zettel with title \<open>t \<close>, no headings and the default
  attributes, which the constructor builds: its Markdown text has the title line
  \<open># t \<close> and its RST text the title line \<open> t \<close>, and both decoders read the title
  \<open>t\<close>, without the blank.
\<close>

theorem C1_counterexample:
  "Zettel_init fixture ''t '' [] [] = Inr zettel_d
   \<and> getMd fixture zettel_d None =
       Inr ''# t \<newline><!--- attributes --->\<newline>    ---\<newline>    creation_date: 2026-11-04, Wed\<newline>    zlinks: {}\<newline>''
   \<and> createFromMd fixture
         ''# t \<newline><!--- attributes --->\<newline>    ---\<newline>    creation_date: 2026-11-04, Wed\<newline>    zlinks: {}\<newline>''
       = Inr \<lparr> title = ''t'', headings = [],
               attrs = [(''creation_date'', PSuperDate ''2026-11-04, Wed''), (''zlinks'', PDict [])] \<rparr>
   \<and> getRst fixture zettel_d None =
       Inr ''====\<newline> t \<newline>====\<newline>.. attributes\<newline>::\<newline>\<newline>    ---\<newline>    creation_date: 2026-11-04, Wed\<newline>    zlinks: {}\<newline>''
   \<and> createFromRst fixture
         ''====\<newline> t \<newline>====\<newline>.. attributes\<newline>::\<newline>\<newline>    ---\<newline>    creation_date: 2026-11-04, Wed\<newline>    zlinks: {}\<newline>''
       = Inr \<lparr> title = ''t'', headings = [],
               attrs = [(''creation_date'', PSuperDate ''2026-11-04, Wed''), (''zlinks'', PDict [])] \<rparr>
   \<and> title zettel_d \<noteq> ''t''"
  by code_simp

text \<open>
  Why the round trip is stated for Zettels with \<open>keys_differ\<close> only: the Zettel with the
  headings \<open>A\<close> and \<open>a\<close>, which both decoders read from a text, is written with the
  heading \<open>a\<close> twice and without the heading \<open>A\<close>.
\<close>

lemma keys_collide_written_twice:
  "createFromMd fixture ''# t\<newline>## A\<newline>x\<newline>## a\<newline>y'' =
     Inr \<lparr> title = ''t'', headings = [(''A'', ''x''), (''a'', ''y'')],
           attrs = [(''creation_date'', PSuperDate ''2026-11-04, Wed''), (''zlinks'', PDict [])] \<rparr>
   \<and> getMd fixture
        \<lparr> title = ''t'', headings = [(''A'', ''x''), (''a'', ''y'')],
          attrs = [(''creation_date'', PSuperDate ''2026-11-04, Wed''), (''zlinks'', PDict [])] \<rparr>
        None =
       Inr ''# t\<newline>## a\<newline>y\<newline>## a\<newline>y\<newline><!--- attributes --->\<newline>    ---\<newline>    creation_date: 2026-11-04, Wed\<newline>    zlinks: {}\<newline>''
   \<and> getRst fixture
        \<lparr> title = ''t'', headings = [(''A'', ''x''), (''a'', ''y'')],
          attrs = [(''creation_date'', PSuperDate ''2026-11-04, Wed''), (''zlinks'', PDict [])] \<rparr>
        None =
       Inr ''===\<newline> t\<newline>===\<newline>a\<newline>=\<newline>y\<newline>a\<newline>=\<newline>y\<newline>.. attributes\<newline>::\<newline>\<newline>    ---\<newline>    creation_date: 2026-11-04, Wed\<newline>    zlinks: {}\<newline>''"
  by code_simp

text \<open>
  C1, amended.  In each dialect, decoding the encoding of a Zettel gives back its title,
  its heading map with the order of the keys, and its attributes, under these conditions.

  \<^item> The text format can carry the Zettel (\<open>md_wf\<close>, \<open>rst_wf\<close>).  The key \<open>_notes\<close>, when
    stored, is the first key and its body is not empty.  Every body has no line break
    other than the line feed and no line that the dialect reads as a heading: in
    Markdown a line that starts, after blanks, with \<open>## \<close>; in RST a line that, stripped,
    starts and ends with \<open>=\<close>.  In Markdown the title is empty or is its own words joined
    by single blanks; a heading name is stripped, has no line break and does not contain
    \<open>## \<close>; with an empty title the notes do not start with white space and their first
    line does not start, stripped, with \<open># \<close>.  In RST the title is empty or is stripped
    and has no line break; a heading name is not empty, has no line break and is not
    read as a heading line; with an empty title the notes, or without notes the first
    heading name, do not start with white space.

  \<^item> The attributes hold \<open>creation_date\<close> and \<open>zlinks\<close> (\<open>has_defaults\<close>).

  \<^item> The date library parses the rendering of every stored date to that date
    (\<open>dates_reparse\<close>), and the YAML library reads the indented dump, which does not
    contain the attribute marker, as the dictionary that was dumped (\<open>yaml_reloads\<close>).

  \<^item> The encoded text does not name a file (\<open>names_no_file\<close>).

  The statement is made for the Zettels whose heading names differ in lower case and
  read \<open>_notes\<close> in lower case only when they are \<open>_notes\<close> (\<open>keys_differ\<close>); it says nothing
  about the others.
\<close>

theorem C1_round_trip:
  "(md_wf z \<and> keys_differ z \<and> has_defaults (attrs z) \<and> dates_reparse sv (attrs z)
      \<and> yaml_reloads sv md_attr_header [] (attrs z) \<and> names_no_file sv (getMd sv z None)
      \<longrightarrow> (\<exists>text z'. getMd sv z None = Inr text \<and> createFromMd sv text = Inr z'
             \<and> title z' = title z \<and> headings z' = headings z \<and> dict_eq (attrs z') (attrs z)))
   \<and> (rst_wf z \<and> keys_differ z \<and> has_defaults (attrs z) \<and> dates_reparse sv (attrs z)
      \<and> yaml_reloads sv rst_attr_header [CHR 0x0A] (attrs z) \<and> names_no_file sv (getRst sv z None)
      \<longrightarrow> (\<exists>text z'. getRst sv z None = Inr text \<and> createFromRst sv text = Inr z'
             \<and> title z' = title z \<and> headings z' = headings z \<and> dict_eq (attrs z') (attrs z)))"
  using md_roundtrip [of z sv] rst_roundtrip [of z sv] names_no_file_Inr [of sv]
  by blast

theorem C1_round_trip_witness:
  "md_wf zettel_c \<and> rst_wf zettel_c \<and> keys_differ zettel_c
   \<and> has_defaults (attrs zettel_c) \<and> dates_reparse fixture (attrs zettel_c)
   \<and> yaml_reloads fixture md_attr_header [] (attrs zettel_c)
   \<and> yaml_reloads fixture rst_attr_header [CHR 0x0A] (attrs zettel_c)
   \<and> names_no_file fixture (getMd fixture zettel_c None)
   \<and> names_no_file fixture (getRst fixture zettel_c None)
   \<and> (\<exists>text z'. getMd fixture zettel_c None = Inr text \<and> createFromMd fixture text = Inr z'
         \<and> title z' = title zettel_c \<and> headings z' = headings zettel_c
         \<and> dict_eq (attrs z') (attrs zettel_c))
   \<and> (\<exists>text z'. getRst fixture zettel_c None = Inr text \<and> createFromRst fixture text = Inr z'
         \<and> title z' = title zettel_c \<and> headings z' = headings zettel_c
         \<and> dict_eq (attrs z') (attrs zettel_c))"
proof -
  have m: "md_wf zettel_c" and r: "rst_wf zettel_c" and k: "keys_differ zettel_c"
    by code_simp+
  have d: "has_defaults (attrs zettel_c)" and p: "dates_reparse fixture (attrs zettel_c)"
    by code_simp+
  have my: "yaml_reloads fixture md_attr_header [] (attrs zettel_c)"
    by code_simp
  have ry: "yaml_reloads fixture rst_attr_header [CHR 0x0A] (attrs zettel_c)"
    by code_simp
  have mf: "names_no_file fixture (getMd fixture zettel_c None)"
    by (simp add: names_no_file_def split: sum.splits)
  have rf: "names_no_file fixture (getRst fixture zettel_c None)"
    by (simp add: names_no_file_def split: sum.splits)
  from C1_round_trip [of zettel_c fixture] m r k d p my ry mf rf show ?thesis
    by blast
qed

end
